theory Spec2Isabelle
  imports Complex_Main "HOL-Library.AList"
begin

section \<open>Numbers and typed arrays\<close>

text \<open>
  A JavaScript number is modelled by its real value: rounding and overflow are outside
  the model. The values that are not finite (NaN and the two infinities) are one further
  value \<open>NonFinite\<close>; the code produces it from finite operands when it divides by zero or
  uses an element read past the end of a typed array (\<open>undefined\<close>, which arithmetic
  turns into NaN). Addition and multiplication give a non-finite result as soon as one
  operand is not finite.
\<close>

datatype num = Fin real | NonFinite

fun num_add :: "num \<Rightarrow> num \<Rightarrow> num" where
  "num_add (Fin a) (Fin b) = Fin (a + b)"
| "num_add _ _ = NonFinite"

fun num_mul :: "num \<Rightarrow> num \<Rightarrow> num" where
  "num_mul (Fin a) (Fin b) = Fin (a * b)"
| "num_mul _ _ = NonFinite"

text \<open>Division of two finite numbers; a zero divisor gives NaN or an infinity.\<close>

definition js_div :: "real \<Rightarrow> real \<Rightarrow> num" where
  "js_div a b = (if b = 0 then NonFinite else Fin (a / b))"

type_synonym Float32Array = "num list"

text \<open>Reading index \<open>i\<close> of a typed array for use in arithmetic.\<close>

definition rd :: "Float32Array \<Rightarrow> nat \<Rightarrow> num" where
  "rd xs i = (if i < length xs then xs ! i else NonFinite)"


text \<open>
  The ways in which a call does not return normally: the two exceptions the modelled code
  can throw, and a loop that never ends.
\<close>

datatype error = RangeError | TypeError | NonTermination

text \<open>A loop whose body can throw: the first exception ends it.\<close>

fun fold_err :: "('s \<Rightarrow> 'a \<Rightarrow> error + 's) \<Rightarrow> 's \<Rightarrow> 'a list \<Rightarrow> error + 's" where
  "fold_err f s [] = Inr s"
| "fold_err f s (x # xs) = (case f s x of Inl e \<Rightarrow> Inl e | Inr s' \<Rightarrow> fold_err f s' xs)"

text \<open>
  \<open>target.set(src)\<close> writes \<open>src\<close> over the start of \<open>target\<close> and throws a RangeError
  when \<open>src\<close> is longer than \<open>target\<close>.
\<close>

definition typed_set :: "Float32Array \<Rightarrow> Float32Array \<Rightarrow> error + Float32Array" where
  "typed_set target src =
     (if length src > length target then Inl RangeError
      else Inr (src @ drop (length src) target))"

section \<open>Training queue (src/lib/finetuning/training-queue.ts)\<close>

text \<open>
  JavaScript strings that are only compared (ids, module and weight names) are modelled as
  \<open>string\<close>. The texts of an example, whose UTF-16 code units are read by
  \<open>charCodeAt\<close>, are lists of code units.
\<close>

type_synonym jstext = "nat list"

datatype TrainingPriority = HIGH | MEDIUM | LOW

fun priority_value :: "TrainingPriority \<Rightarrow> int" where
  "priority_value HIGH = 3"
| "priority_value MEDIUM = 2"
| "priority_value LOW = 1"

datatype Source = Chat | Import | Manual

datatype ContentType = TextContent | ImageContent | WebContent

record Metadata =
  source :: Source
  contentType :: "ContentType option"
  url :: "string option"

record TrainingExample =
  ex_id :: string
  ex_input :: jstext
  ex_output :: jstext
  priority :: TrainingPriority
  timestamp :: int
  metadata :: "Metadata option"

record TrainingQueue =
  queue :: "TrainingExample list"
  processedIds :: "string set"
  maxQueueSize :: nat

text \<open>The field initialisers of the class: an empty queue of capacity 10000.\<close>

definition new_queue :: TrainingQueue where
  "new_queue = \<lparr>queue = [], processedIds = {}, maxQueueSize = 10000\<rparr>"

text \<open>The comparator handed to \<open>Array.prototype.sort\<close> by \<open>sortByPriority\<close>.\<close>

definition compare_examples :: "TrainingExample \<Rightarrow> TrainingExample \<Rightarrow> int" where
  "compare_examples a b =
     (if priority a \<noteq> priority b then priority_value (priority b) - priority_value (priority a)
      else timestamp b - timestamp a)"

text \<open>
  \<open>Array.prototype.sort\<close> is a stable sort: elements the comparator does not separate keep
  their order. It is modelled as a stable insertion sort.
\<close>

fun js_insert :: "('a \<Rightarrow> 'a \<Rightarrow> 'b::{zero,ord}) \<Rightarrow> 'a \<Rightarrow> 'a list \<Rightarrow> 'a list" where
  "js_insert cmp x [] = [x]"
| "js_insert cmp x (y # ys) = (if cmp x y \<le> 0 then x # y # ys else y # js_insert cmp x ys)"

fun js_sort :: "('a \<Rightarrow> 'a \<Rightarrow> 'b::{zero,ord}) \<Rightarrow> 'a list \<Rightarrow> 'a list" where
  "js_sort cmp [] = []"
| "js_sort cmp (x # xs) = js_insert cmp x (js_sort cmp xs)"

definition sortByPriority :: "TrainingQueue \<Rightarrow> TrainingQueue" where
  "sortByPriority q = q\<lparr>queue := js_sort compare_examples (queue q)\<rparr>"

text \<open>
  \<open>add\<close>: return at once when the id is in \<open>processedIds\<close>; when the queue is full,
  \<open>shift()\<close> takes the first element off and its id is deleted from \<open>processedIds\<close>;
  then push and sort.
\<close>

definition add :: "TrainingExample \<Rightarrow> TrainingQueue \<Rightarrow> TrainingQueue" where
  "add example q =
     (if ex_id example \<in> processedIds q then q
      else
        let q1 = (if length (queue q) \<ge> maxQueueSize q
                  then (case queue q of
                          [] \<Rightarrow> q
                        | removed # rest \<Rightarrow>
                            q\<lparr>queue := rest, processedIds := processedIds q - {ex_id removed}\<rparr>)
                  else q)
        in sortByPriority (q1\<lparr>queue := queue q1 @ [example]\<rparr>))"

definition addBatch :: "TrainingExample list \<Rightarrow> TrainingQueue \<Rightarrow> TrainingQueue" where
  "addBatch examples q = foldl (\<lambda>s ex. add ex s) q examples"

definition getBatch :: "nat \<Rightarrow> TrainingQueue \<Rightarrow> TrainingExample list" where
  "getBatch n q = take n (queue q)"

definition removeBatch :: "string list \<Rightarrow> TrainingQueue \<Rightarrow> TrainingQueue" where
  "removeBatch ids q =
     q\<lparr>queue := filter (\<lambda>ex. ex_id ex \<notin> set ids) (queue q),
       processedIds := processedIds q \<union> set ids\<rparr>"

definition size_queue :: "TrainingQueue \<Rightarrow> nat" where
  "size_queue q = length (queue q)"

definition clear :: "TrainingQueue \<Rightarrow> TrainingQueue" where
  "clear q = q\<lparr>queue := [], processedIds := {}\<rparr>"

section \<open>Weight updater (src/lib/finetuning/weight-updater.ts)\<close>

record Metrics =
  loss :: real
  perplexity :: "real option"
  accuracy :: "real option"

type_synonym ModelWeights = "string \<rightharpoonup> Float32Array"

record WeightSnapshot =
  snap_timestamp :: int
  snap_weights :: ModelWeights
  snap_metrics :: "Metrics option"

record UpdateConfig =
  updateInterval :: int
  snapshotInterval :: int
  maxSnapshots :: int
  rollbackThreshold :: real

record WeightUpdater =
  currentWeights :: ModelWeights
  snapshots :: "WeightSnapshot list"
  wu_config :: UpdateConfig
  updateCount :: nat
  lastMetrics :: "Metrics option"

definition default_config :: UpdateConfig where
  "default_config = \<lparr>updateInterval = 1000, snapshotInterval = 10, maxSnapshots = 5,
                      rollbackThreshold = 0.2\<rparr>"

text \<open>
  The clock \<open>Date.now()\<close> is an argument \<open>now\<close> of every operation that reads it.
  \<open>createSnapshot\<close> copies every weight, appends the snapshot and removes the oldest one
  when the list has become longer than \<open>maxSnapshots\<close>.
\<close>

definition createSnapshot :: "Metrics option \<Rightarrow> int \<Rightarrow> WeightUpdater \<Rightarrow> WeightUpdater" where
  "createSnapshot metrics now s =
     (let snapshot = \<lparr>snap_timestamp = now, snap_weights = currentWeights s,
                       snap_metrics = metrics\<rparr>;
          pushed = snapshots s @ [snapshot]
      in s\<lparr>snapshots := (if int (length pushed) > maxSnapshots (wu_config s) then tl pushed
                          else pushed),
            lastMetrics := metrics\<rparr>)"

definition constructor :: "ModelWeights \<Rightarrow> UpdateConfig \<Rightarrow> int \<Rightarrow> WeightUpdater" where
  "constructor initialWeights config now =
     createSnapshot None now
       \<lparr>currentWeights = initialWeights, snapshots = [], wu_config = config,
        updateCount = 0, lastMetrics = None\<rparr>"

text \<open>
  \<open>applyUpdate\<close>: \<open>currentWeight[i] += alpha * delta[i]\<close> for every index of the weight;
  the update counter goes up and every \<open>snapshotInterval\<close>-th update takes a snapshot.
  \<open>x % 0\<close> is NaN, which is not \<open>=== 0\<close>.
\<close>

definition applyUpdate ::
  "string \<Rightarrow> Float32Array \<Rightarrow> real \<Rightarrow> int \<Rightarrow> WeightUpdater \<Rightarrow> WeightUpdater" where
  "applyUpdate weightName delta alpha now s =
     (case currentWeights s weightName of
        None \<Rightarrow> s
      | Some currentWeight \<Rightarrow>
          let updated = map (\<lambda>i. num_add (currentWeight ! i) (num_mul (Fin alpha) (rd delta i)))
                          [0..<length currentWeight];
              s1 = s\<lparr>currentWeights := (currentWeights s)(weightName \<mapsto> updated),
                     updateCount := updateCount s + 1\<rparr>
          in if snapshotInterval (wu_config s1) \<noteq> 0
                \<and> int (updateCount s1) mod snapshotInterval (wu_config s1) = 0
             then createSnapshot None now s1 else s1)"

definition applyBatchUpdate ::
  "(string \<times> Float32Array) list \<Rightarrow> real \<Rightarrow> int \<Rightarrow> WeightUpdater \<Rightarrow> WeightUpdater" where
  "applyBatchUpdate updates alpha now s =
     foldl (\<lambda>st (name, delta). applyUpdate name delta alpha now st) s updates"

text \<open>
  \<open>replaceWeight\<close>: a RangeError of \<open>set\<close> is thrown before anything is written, so it
  leaves the updater as it was.
\<close>

definition replaceWeight ::
  "string \<Rightarrow> Float32Array \<Rightarrow> WeightUpdater \<Rightarrow> error option \<times> WeightUpdater" where
  "replaceWeight weightName newWeight s =
     (case currentWeights s weightName of
        None \<Rightarrow> (None, s)
      | Some currentWeight \<Rightarrow>
          (case typed_set currentWeight newWeight of
             Inl e \<Rightarrow> (Some e, s)
           | Inr w \<Rightarrow> (None, s\<lparr>currentWeights := (currentWeights s)(weightName \<mapsto> w),
                               updateCount := updateCount s + 1\<rparr>)))"

text \<open>
  The restore loop of \<open>rollback\<close> writes every snapshotted weight over the live weight of
  the same name. It throws when a snapshotted weight is longer than the live one.
\<close>

definition restorable :: "ModelWeights \<Rightarrow> ModelWeights \<Rightarrow> bool" where
  "restorable snap cur =
     (\<forall>name w cw. snap name = Some w \<longrightarrow> cur name = Some cw \<longrightarrow> length w \<le> length cw)"

definition restore :: "ModelWeights \<Rightarrow> ModelWeights \<Rightarrow> ModelWeights" where
  "restore snap cur =
     (\<lambda>name. case cur name of
                None \<Rightarrow> None
              | Some cw \<Rightarrow> (case snap name of
                             None \<Rightarrow> Some cw
                           | Some w \<Rightarrow> Some (w @ drop (length w) cw)))"

definition rollback ::
  "int option \<Rightarrow> WeightUpdater \<Rightarrow> error + (bool \<times> WeightUpdater)" where
  "rollback snapshotIndex s =
     (if length (snapshots s) = 0 then Inr (False, s)
      else
        let targetIndex = (case snapshotIndex of
                             Some i \<Rightarrow> i
                           | None \<Rightarrow> int (length (snapshots s)) - 1)
        in if targetIndex < 0 \<or> targetIndex \<ge> int (length (snapshots s)) then Inr (False, s)
           else
             let snapshot = snapshots s ! nat targetIndex
             in if restorable (snap_weights snapshot) (currentWeights s)
                then Inr (True, s\<lparr>currentWeights :=
                                      restore (snap_weights snapshot) (currentWeights s),
                                    lastMetrics := snap_metrics snapshot\<rparr>)
                else Inl RangeError)"

definition clearOldSnapshots :: "WeightUpdater \<Rightarrow> WeightUpdater" where
  "clearOldSnapshots s =
     (if length (snapshots s) > 1 then s\<lparr>snapshots := [last (snapshots s)]\<rparr> else s)"

text \<open>
  \<open>importWeights\<close>: entries are written in order, a new name gets a copy of the array; a
  RangeError ends the loop before the final snapshot is taken.
\<close>

fun importEntries ::
  "(string \<times> Float32Array) list \<Rightarrow> ModelWeights \<Rightarrow> error option \<times> ModelWeights" where
  "importEntries [] cur = (None, cur)"
| "importEntries ((name, weight) # rest) cur =
     (case cur name of
        Some currentWeight \<Rightarrow>
          (case typed_set currentWeight weight of
             Inl e \<Rightarrow> (Some e, cur)
           | Inr w \<Rightarrow> importEntries rest (cur(name \<mapsto> w)))
      | None \<Rightarrow> importEntries rest (cur(name \<mapsto> weight)))"

definition importWeights ::
  "(string \<times> Float32Array) list \<Rightarrow> int \<Rightarrow> WeightUpdater \<Rightarrow> error option \<times> WeightUpdater" where
  "importWeights weights now s =
     (case importEntries weights (currentWeights s) of
        (Some e, cur) \<Rightarrow> (Some e, s\<lparr>currentWeights := cur\<rparr>)
      | (None, cur) \<Rightarrow> (None, createSnapshot None now (s\<lparr>currentWeights := cur\<rparr>)))"

record PartialConfig =
  new_updateInterval :: "int option"
  new_snapshotInterval :: "int option"
  new_maxSnapshots :: "int option"
  new_rollbackThreshold :: "real option"

definition updateConfig :: "PartialConfig \<Rightarrow> WeightUpdater \<Rightarrow> WeightUpdater" where
  "updateConfig c s =
     s\<lparr>wu_config :=
         \<lparr>updateInterval = (case new_updateInterval c of Some v \<Rightarrow> v
                              | None \<Rightarrow> updateInterval (wu_config s)),
          snapshotInterval = (case new_snapshotInterval c of Some v \<Rightarrow> v
                              | None \<Rightarrow> snapshotInterval (wu_config s)),
          maxSnapshots = (case new_maxSnapshots c of Some v \<Rightarrow> v
                              | None \<Rightarrow> maxSnapshots (wu_config s)),
          rollbackThreshold = (case new_rollbackThreshold c of Some v \<Rightarrow> v
                              | None \<Rightarrow> rollbackThreshold (wu_config s))\<rparr>\<rparr>"

text \<open>
  The public operations that change the updater, each with the clock value it runs at.
  \<open>wu_step\<close> runs one call; a RangeError thrown by \<open>replaceWeight\<close> or \<open>importWeights\<close> is
  caught by the caller, who goes on with the updater as the call left it.
\<close>

datatype wu_op =
    ApplyUpdate string Float32Array real
  | ApplyBatchUpdate "(string \<times> Float32Array) list" real
  | ReplaceWeight string Float32Array
  | CreateSnapshot "Metrics option"
  | Rollback "int option"
  | ClearOldSnapshots
  | ImportWeights "(string \<times> Float32Array) list"
  | UpdateConfig PartialConfig

fun wu_step :: "wu_op \<times> int \<Rightarrow> WeightUpdater \<Rightarrow> error + WeightUpdater" where
  "wu_step (ApplyUpdate name delta alpha, now) s = Inr (applyUpdate name delta alpha now s)"
| "wu_step (ApplyBatchUpdate updates alpha, now) s = Inr (applyBatchUpdate updates alpha now s)"
| "wu_step (ReplaceWeight name w, now) s = Inr (snd (replaceWeight name w s))"
| "wu_step (CreateSnapshot metrics, now) s = Inr (createSnapshot metrics now s)"
| "wu_step (Rollback i, now) s = (case rollback i s of Inl e \<Rightarrow> Inl e | Inr (b, s') \<Rightarrow> Inr s')"
| "wu_step (ClearOldSnapshots, now) s = Inr (clearOldSnapshots s)"
| "wu_step (ImportWeights weights, now) s = Inr (snd (importWeights weights now s))"
| "wu_step (UpdateConfig c, now) s = Inr (updateConfig c s)"

fun wu_run :: "(wu_op \<times> int) list \<Rightarrow> WeightUpdater \<Rightarrow> error + WeightUpdater" where
  "wu_run [] s = Inr s"
| "wu_run (c # cs) s = (case wu_step c s of Inl e \<Rightarrow> Inl e | Inr s' \<Rightarrow> wu_run cs s')"

definition getWeight :: "string \<Rightarrow> WeightUpdater \<Rightarrow> Float32Array option" where
  "getWeight name s = currentWeights s name"

text \<open>
  Sequences of the two mutating calls \<open>applyUpdate\<close> and \<open>replaceWeight\<close>.
  \<open>takes_snapshot\<close> is the condition under which \<open>applyUpdate\<close> takes its periodic
  snapshot: the weight exists and the update is a \<open>snapshotInterval\<close>-th one.
\<close>

datatype mutation = MApplyUpdate string Float32Array real | MReplaceWeight string Float32Array

fun mutate :: "mutation \<times> int \<Rightarrow> WeightUpdater \<Rightarrow> WeightUpdater" where
  "mutate (MApplyUpdate name delta alpha, now) s = applyUpdate name delta alpha now s"
| "mutate (MReplaceWeight name w, now) s = snd (replaceWeight name w s)"

fun mutate_all :: "(mutation \<times> int) list \<Rightarrow> WeightUpdater \<Rightarrow> WeightUpdater" where
  "mutate_all [] s = s"
| "mutate_all (m # ms) s = mutate_all ms (mutate m s)"

fun takes_snapshot :: "mutation \<times> int \<Rightarrow> WeightUpdater \<Rightarrow> bool" where
  "takes_snapshot (MApplyUpdate name delta alpha, now) s =
     (currentWeights s name \<noteq> None \<and> snapshotInterval (wu_config s) \<noteq> 0
      \<and> int (updateCount s + 1) mod snapshotInterval (wu_config s) = 0)"
| "takes_snapshot (MReplaceWeight name w, now) s = False"

fun no_periodic_snapshot :: "(mutation \<times> int) list \<Rightarrow> WeightUpdater \<Rightarrow> bool" where
  "no_periodic_snapshot [] s = True"
| "no_periodic_snapshot (m # ms) s =
     (\<not> takes_snapshot m s \<and> no_periodic_snapshot ms (mutate m s))"

section \<open>LoRA adapter (src/lib/finetuning/lora.ts)\<close>

record LoRAConfig =
  rank :: nat
  alpha :: real
  dropout :: real
  targetModules :: "string list"
  enableBias :: bool






section \<open>Learning-rate schedule (src/lib/finetuning/training-engine.ts)\<close>

datatype Mode = LoraMode | FullMode | HybridMode

record TrainingConfig =
  mode :: Mode
  learningRate :: real
  batchSize :: nat
  warmupSteps :: real
  maxSteps :: real

text \<open>
  \<open>getLearningRate\<close> reads the configuration and the step counter of the engine. In the
  cosine branch the quotient has the divisor \<open>maxSteps - warmupSteps\<close>; when that is zero
  the progress, its cosine and the rate are not finite.
\<close>

definition getLearningRate :: "TrainingConfig \<Rightarrow> nat \<Rightarrow> num" where
  "getLearningRate cfg step =
     (if real step < warmupSteps cfg
      then Fin (learningRate cfg * (real step / warmupSteps cfg))
      else if maxSteps cfg - warmupSteps cfg = 0 then NonFinite
      else
        let progress = (real step - warmupSteps cfg) / (maxSteps cfg - warmupSteps cfg)
        in Fin (learningRate cfg * 0.5 * (1 + cos (pi * progress))))"

section \<open>Fast learner (src/unnamed/part_002)\<close>

text \<open>
  The encodings the fast learner works on are produced by \<open>encodeText\<close> from finite
  values; they are vectors of reals.

  \<open>cosineSimilarity\<close>: the loop walks both arrays (of equal length, by the guard before
  it) and accumulates the dot product and the two squared norms.
\<close>

fun similarity_sums ::
  "real list \<Rightarrow> real list \<Rightarrow> real \<times> real \<times> real \<Rightarrow> real \<times> real \<times> real" where
  "similarity_sums (x # xs) (y # ys) (dotProduct, normA, normB) =
     similarity_sums xs ys (dotProduct + x * y, normA + x * x, normB + y * y)"
| "similarity_sums _ _ acc = acc"

definition cosineSimilarity :: "real list \<Rightarrow> real list \<Rightarrow> real" where
  "cosineSimilarity a b =
     (if length a \<noteq> length b then 0
      else
        case similarity_sums a b (0, 0, 0) of
          (dotProduct, sumA, sumB) \<Rightarrow>
            let normA = sqrt sumA; normB = sqrt sumB
            in if normA = 0 \<or> normB = 0 then 0 else dotProduct / (normA * normB))"


section \<open>Simulated neurons (src/lib/finetuning/importers/website-importer.ts)\<close>

record NeuronConfig =
  numNeurons :: nat
  threshold :: real
  refractoryPeriod :: real
  leakRate :: real
  synapticStrength :: real
  plasticityRate :: real
  enableSTDP :: bool

text \<open>
  \<open>lastSpikeTime\<close> is \<open>None\<close> for \<open>-Infinity\<close>. The \<open>connections\<close> map keeps its entries
  in insertion order: an association list changed with \<open>AList.update\<close> (replace the value
  of a present key in place, append a new key) and read with \<open>map_of\<close>.
\<close>

record Neuron =
  neuron_id :: nat
  potential :: real
  lastSpikeTime :: "int option"
  isRefractory :: bool
  connections :: "(nat \<times> real) list"
  spikeHistory :: "int list"

record SimulatedNeuralNetwork =
  neurons :: "Neuron list"
  net_config :: NeuronConfig
  timeStep :: int
  globalActivity :: num

text \<open>
  \<open>initializeNeurons\<close>. \<open>random k\<close> is the value of the \<open>k\<close>-th call of \<open>Math.random()\<close>
  made by the constructor. The first \<open>numNeurons\<close> calls give the potentials. In the
  double loop a pair \<open>i \<noteq> j\<close> makes one call for the connection test and, when the test
  succeeds, one more for the weight; the counter of calls is threaded through.
\<close>

fun connect_row ::
  "NeuronConfig \<Rightarrow> (nat \<Rightarrow> real) \<Rightarrow> nat \<Rightarrow> nat list \<Rightarrow> nat \<times> (nat \<times> real) list
     \<Rightarrow> nat \<times> (nat \<times> real) list" where
  "connect_row cfg random i [] (k, conns) = (k, conns)"
| "connect_row cfg random i (j # js) (k, conns) =
     (if i \<noteq> j
      then (if random k < 0.1
            then connect_row cfg random i js
                   (k + 2, AList.update j ((random (k + 1) - 0.5) * synapticStrength cfg) conns)
            else connect_row cfg random i js (k + 1, conns))
      else connect_row cfg random i js (k, conns))"

fun connect_all ::
  "NeuronConfig \<Rightarrow> (nat \<Rightarrow> real) \<Rightarrow> nat \<Rightarrow> Neuron list \<Rightarrow> Neuron list" where
  "connect_all cfg random k [] = []"
| "connect_all cfg random k (n # ns) =
     (case connect_row cfg random (neuron_id n) [0..<numNeurons cfg] (k, connections n) of
        (k', conns) \<Rightarrow> n\<lparr>connections := conns\<rparr> # connect_all cfg random k' ns)"

definition initializeNeurons :: "NeuronConfig \<Rightarrow> (nat \<Rightarrow> real) \<Rightarrow> Neuron list" where
  "initializeNeurons cfg random =
     connect_all cfg random (numNeurons cfg)
       (map (\<lambda>i. \<lparr>neuron_id = i, potential = random i * 0.1 - 0.05, lastSpikeTime = None,
                   isRefractory = False, connections = [], spikeHistory = []\<rparr>)
          [0..<numNeurons cfg])"

definition new_network :: "NeuronConfig \<Rightarrow> (nat \<Rightarrow> real) \<Rightarrow> SimulatedNeuralNetwork" where
  "new_network cfg random =
     \<lparr>neurons = initializeNeurons cfg random, net_config = cfg, timeStep = 0,
      globalActivity = Fin 0\<rparr>"

text \<open>
  One neuron in the first loop of \<open>updateNeurons\<close> at time \<open>t\<close>: skipped while refractory,
  else leaked, and fired when the potential has reached the threshold. The result says
  whether it fired.
\<close>

definition update_neuron :: "NeuronConfig \<Rightarrow> int \<Rightarrow> Neuron \<Rightarrow> Neuron \<times> bool" where
  "update_neuron cfg t n =
     (if (case lastSpikeTime n of None \<Rightarrow> False
          | Some l \<Rightarrow> real_of_int (t - l) < refractoryPeriod cfg)
      then (n\<lparr>isRefractory := True\<rparr>, False)
      else
        let n1 = n\<lparr>isRefractory := False, potential := potential n * (1 - leakRate cfg)\<rparr>
        in if potential n1 \<ge> threshold cfg
           then
             let history = spikeHistory n1 @ [t]
             in (n1\<lparr>lastSpikeTime := Some t, potential := 0,
                     spikeHistory := (if length history > 100 then tl history else history)\<rparr>,
                 True)
           else (n1, False))"

text \<open>
  \<open>this.neurons[i]\<close> is \<open>undefined\<close> past the end of the array, and reading a property of
  it throws a TypeError.
\<close>

definition neuron_at :: "Neuron list \<Rightarrow> nat \<Rightarrow> error + Neuron" where
  "neuron_at ns i = (if i < length ns then Inr (ns ! i) else Inl TypeError)"

text \<open>Spike propagation: every connection of a firing neuron adds its weight to the target.\<close>

definition propagate_one :: "Neuron list \<Rightarrow> nat \<times> real \<Rightarrow> error + Neuron list" where
  "propagate_one ns c =
     (case c of (targetId, weight) \<Rightarrow>
        (case neuron_at ns targetId of
           Inl e \<Rightarrow> Inl e
         | Inr target \<Rightarrow> Inr (ns[targetId := target\<lparr>potential := potential target + weight\<rparr>])))"

definition propagate_spike :: "Neuron list \<Rightarrow> nat \<Rightarrow> error + Neuron list" where
  "propagate_spike ns sourceId =
     (case neuron_at ns sourceId of
        Inl e \<Rightarrow> Inl e
      | Inr src \<Rightarrow> fold_err propagate_one ns (connections src))"

text \<open>
  \<open>applySTDP\<close>: for a firing source and each of its connections, when the target has fired
  and the two spike times are less than 20 steps apart, the weight moves by
  \<open>\<plusminus> plasticityRate * exp (- |timeDiff| / 10)\<close> and is clamped into \<open>[-1, 1]\<close>.
  A source that has never fired has \<open>timeDiff = +Infinity\<close>, outside the window.
\<close>

definition stdp_weight :: "NeuronConfig \<Rightarrow> int \<Rightarrow> real \<Rightarrow> real" where
  "stdp_weight cfg timeDiff weight =
     (let deltaWeight =
            (if timeDiff > 0 then plasticityRate cfg * exp (- real_of_int timeDiff / 10)
             else - plasticityRate cfg * exp (real_of_int timeDiff / 10));
          newWeight = weight + deltaWeight
      in max (- 1.0) (min 1.0 newWeight))"

definition stdp_one ::
  "NeuronConfig \<Rightarrow> Neuron list \<Rightarrow> int option \<Rightarrow> (nat \<times> real) list \<Rightarrow> nat \<times> real
     \<Rightarrow> error + (nat \<times> real) list" where
  "stdp_one cfg ns sourceTime conns c =
     (case c of (targetId, weight) \<Rightarrow>
        (case neuron_at ns targetId of
           Inl e \<Rightarrow> Inl e
         | Inr target \<Rightarrow>
             (case (lastSpikeTime target, sourceTime) of
                (Some targetTime, Some st) \<Rightarrow>
                  (if \<bar>targetTime - st\<bar> < 20
                   then Inr (AList.update targetId (stdp_weight cfg (targetTime - st) weight) conns)
                   else Inr conns)
              | _ \<Rightarrow> Inr conns)))"

definition stdp_source :: "NeuronConfig \<Rightarrow> Neuron list \<Rightarrow> nat \<Rightarrow> error + Neuron list" where
  "stdp_source cfg ns sourceId =
     (case neuron_at ns sourceId of
        Inl e \<Rightarrow> Inl e
      | Inr src \<Rightarrow>
          (case fold_err (stdp_one cfg ns (lastSpikeTime src)) (connections src)
                  (connections src) of
             Inl e \<Rightarrow> Inl e
           | Inr conns \<Rightarrow> Inr (ns[sourceId := src\<lparr>connections := conns\<rparr>])))"

definition applySTDP :: "NeuronConfig \<Rightarrow> nat list \<Rightarrow> Neuron list \<Rightarrow> error + Neuron list" where
  "applySTDP cfg recentSpikes ns = fold_err (stdp_source cfg) ns recentSpikes"

definition updateNeurons :: "SimulatedNeuralNetwork \<Rightarrow> error + SimulatedNeuralNetwork" where
  "updateNeurons net =
     (let cfg = net_config net;
          t = timeStep net + 1;
          updated = map (update_neuron cfg t) (neurons net);
          spikes = map (neuron_id \<circ> fst) (filter snd updated)
      in case fold_err propagate_spike (map fst updated) spikes of
           Inl e \<Rightarrow> Inl e
         | Inr ns1 \<Rightarrow>
             (case (if enableSTDP cfg then applySTDP cfg spikes ns1 else Inr ns1) of
                Inl e \<Rightarrow> Inl e
              | Inr ns2 \<Rightarrow>
                  Inr (net\<lparr>neurons := ns2, timeStep := t,
                           globalActivity :=
                             js_div (real (length spikes)) (real (numNeurons cfg))\<rparr>)))"

text \<open>
  \<open>forward\<close>: the input is added to the potentials of the first neurons, ten steps are
  simulated, and the output is read from the last neurons. \<open>neuronsPerInput\<close> is only
  used inside the loops over the input, which do not run for an empty input.
\<close>

definition apply_input :: "real list \<Rightarrow> nat \<Rightarrow> Neuron list \<Rightarrow> Neuron list" where
  "apply_input input neuronsPerInput ns =
     foldl (\<lambda>ns1 i.
              foldl (\<lambda>ns2 j.
                       let neuronIdx = i * neuronsPerInput + j
                       in if neuronIdx < length ns2
                          then ns2[neuronIdx :=
                                 (ns2 ! neuronIdx)\<lparr>potential :=
                                    potential (ns2 ! neuronIdx) + input ! i\<rparr>]
                          else ns2)
                    ns1 [0..<neuronsPerInput])
           ns [0..<length input]"

fun iterate_update :: "nat \<Rightarrow> SimulatedNeuralNetwork \<Rightarrow> error + SimulatedNeuralNetwork" where
  "iterate_update 0 net = Inr net"
| "iterate_update (Suc k) net =
     (case updateNeurons net of Inl e \<Rightarrow> Inl e | Inr net' \<Rightarrow> iterate_update k net')"

definition read_output :: "SimulatedNeuralNetwork \<Rightarrow> nat \<Rightarrow> nat \<Rightarrow> error + real" where
  "read_output net neuronsPerInput i =
     (case fold_err (\<lambda>(acc, cnt) j.
                       if i * neuronsPerInput + j + 1 \<le> numNeurons (net_config net)
                       then (case neuron_at (neurons net)
                                    (numNeurons (net_config net) - (i * neuronsPerInput + j) - 1) of
                               Inl e \<Rightarrow> Inl e
                             | Inr n \<Rightarrow> Inr (acc + potential n, cnt + 1))
                       else Inr (acc, cnt))
                    (0, 0 :: nat) [0..<neuronsPerInput] of
        Inl e \<Rightarrow> Inl e
      | Inr (acc, cnt) \<Rightarrow> Inr (if cnt > 0 then acc / real cnt else 0))"

fun map_err :: "('a \<Rightarrow> error + 'b) \<Rightarrow> 'a list \<Rightarrow> error + 'b list" where
  "map_err f [] = Inr []"
| "map_err f (x # xs) =
     (case f x of
        Inl e \<Rightarrow> Inl e
      | Inr y \<Rightarrow> (case map_err f xs of Inl e \<Rightarrow> Inl e | Inr ys \<Rightarrow> Inr (y # ys)))"

definition net_forward ::
  "real list \<Rightarrow> SimulatedNeuralNetwork \<Rightarrow> error + (real list \<times> SimulatedNeuralNetwork)" where
  "net_forward input net =
     (let neuronsPerInput = numNeurons (net_config net) div length input;
          net1 = net\<lparr>neurons := apply_input input neuronsPerInput (neurons net)\<rparr>
      in case iterate_update 10 net1 of
           Inl e \<Rightarrow> Inl e
         | Inr net2 \<Rightarrow>
             (case map_err (read_output net2 neuronsPerInput) [0..<length input] of
                Inl e \<Rightarrow> Inl e
              | Inr output \<Rightarrow> Inr (output, net2)))"

text \<open>
  \<open>hebbianLearning\<close>. The neurons of an input slot above 0.5 are the active inputs, the
  mirrored neurons of a target slot above 0.5 the active targets (two Sets; their elements
  are pairwise different by construction). Every connection from an active input to an
  active target grows by \<open>plasticityRate\<close>, capped at 1.

  For an empty input \<open>neuronsPerInput\<close> is \<open>numNeurons / 0\<close>: Infinity when there are
  neurons, and then the loop \<open>j < neuronsPerInput\<close> of a target slot above 0.5 never ends.
\<close>

definition hebbian_pair :: "NeuronConfig \<Rightarrow> (nat \<times> real) list \<Rightarrow> nat \<Rightarrow> (nat \<times> real) list" where
  "hebbian_pair cfg conns targetId =
     (let currentWeight = (case map_of conns targetId of None \<Rightarrow> 0 | Some w \<Rightarrow> w);
          newWeight = currentWeight + plasticityRate cfg
      in AList.update targetId (min 1.0 newWeight) conns)"

definition hebbian_source ::
  "NeuronConfig \<Rightarrow> nat list \<Rightarrow> Neuron list \<Rightarrow> nat \<Rightarrow> error + Neuron list" where
  "hebbian_source cfg activeTarget ns sourceId =
     (if activeTarget = [] then Inr ns
      else case neuron_at ns sourceId of
             Inl e \<Rightarrow> Inl e
           | Inr src \<Rightarrow>
               Inr (ns[sourceId :=
                      src\<lparr>connections :=
                                foldl (hebbian_pair cfg) (connections src) activeTarget\<rparr>]))"

definition hebbianLearning ::
  "real list \<Rightarrow> real list \<Rightarrow> SimulatedNeuralNetwork \<Rightarrow> error + SimulatedNeuralNetwork" where
  "hebbianLearning input target net =
     (let cfg = net_config net;
          neuronsPerInput = numNeurons cfg div length input
      in if input = [] \<and> numNeurons cfg > 0 \<and> (\<exists>t \<in> set target. t > 0.5)
         then Inl NonTermination
         else
           let activeInput =
                 concat (map (\<lambda>i. if input ! i > 0.5
                                    then map (\<lambda>j. i * neuronsPerInput + j) [0..<neuronsPerInput]
                                    else [])
                           [0..<length input]);
               activeTarget =
                 concat (map (\<lambda>i. if target ! i > 0.5
                                    then map (\<lambda>j. numNeurons cfg - (i * neuronsPerInput + j) - 1)
                                           (filter (\<lambda>j. i * neuronsPerInput + j + 1 \<le> numNeurons cfg)
                                              [0..<neuronsPerInput])
                                    else [])
                           [0..<length target])
           in case fold_err (hebbian_source cfg activeTarget) (neurons net) activeInput of
                Inl e \<Rightarrow> Inl e
              | Inr ns \<Rightarrow> Inr (net\<lparr>neurons := ns\<rparr>))"

definition pruneConnections :: "real \<Rightarrow> SimulatedNeuralNetwork \<Rightarrow> SimulatedNeuralNetwork" where
  "pruneConnections thr net =
     net\<lparr>neurons :=
           map (\<lambda>n. n\<lparr>connections := filter (\<lambda>(targetId, weight). \<not> \<bar>weight\<bar> < thr)
                                          (connections n)\<rparr>)
             (neurons net)\<rparr>"

text \<open>Sequences of the three operations on a network.\<close>

datatype net_op = Forward "real list" | HebbianLearning "real list" "real list"
  | PruneConnections real

fun net_step :: "net_op \<Rightarrow> SimulatedNeuralNetwork \<Rightarrow> error + SimulatedNeuralNetwork" where
  "net_step (Forward input) net =
     (case net_forward input net of Inl e \<Rightarrow> Inl e | Inr (output, net') \<Rightarrow> Inr net')"
| "net_step (HebbianLearning input target) net = hebbianLearning input target net"
| "net_step (PruneConnections thr) net = Inr (pruneConnections thr net)"

definition net_run :: "net_op list \<Rightarrow> SimulatedNeuralNetwork \<Rightarrow> error + SimulatedNeuralNetwork" where
  "net_run ops net = fold_err (\<lambda>s c. net_step c s) net ops"

record EpisodicMemory =
  mem_id :: string
  mem_input :: "real list"
  mem_output :: "real list"
  mem_context :: jstext
  mem_timestamp :: int
  accessCount :: nat
  lastAccessed :: int
  importance :: real

record FastLearnerConfig =
  episodicMemorySize :: nat
  similarityThreshold :: real
  metaLearningRate :: real
  adaptiveThreshold :: real
  neuronConfig :: NeuronConfig

record FastLearner =
  episodicMemory :: "EpisodicMemory list"
  neuralNetwork :: SimulatedNeuralNetwork
  fl_config :: FastLearnerConfig
  learningHistory :: "(num \<times> int) list"

definition new_learner :: "FastLearnerConfig \<Rightarrow> (nat \<Rightarrow> real) \<Rightarrow> FastLearner" where
  "new_learner config random =
     \<lparr>episodicMemory = [], neuralNetwork = new_network (neuronConfig config) random,
      fl_config = config, learningHistory = []\<rparr>"

text \<open>
  \<open>encodeText\<close>: every code unit of the text adds \<open>1 / text.length\<close> to the bin
  \<open>charCode % 256\<close> of a 256-bin histogram, which is then divided by the sum of its bins
  when that sum is positive.
\<close>

definition encodeText :: "jstext \<Rightarrow> real list" where
  "encodeText text =
     (let encoding =
            foldl (\<lambda>enc charCode.
                     enc[charCode mod 256 := enc ! (charCode mod 256) + 1 / real (length text)])
                  (replicate 256 0) text;
          s = sum_list encoding
      in if s > 0 then map (\<lambda>v. v / s) encoding else encoding)"

text \<open>
  \<open>findSimilar\<close> returns the position of the best match in the memory list: the first
  memory whose similarity is above the threshold and above every similarity before it.
\<close>

definition findSimilar :: "real list \<Rightarrow> real \<Rightarrow> EpisodicMemory list \<Rightarrow> nat option" where
  "findSimilar input thr mems =
     fst (foldl (\<lambda>(bestMatch, bestSimilarity) i.
                   let similarity = cosineSimilarity input (mem_input (mems ! i))
                   in if similarity > thr \<and> similarity > bestSimilarity
                      then (Some i, similarity)
                      else (bestMatch, bestSimilarity))
                (None, 0) [0..<length mems])"

text \<open>
  The score of \<open>consolidateMemory\<close> is
  \<open>importance * log (accessCount + 1) * (1 / (now - lastAccessed + 1))\<close>. A memory accessed
  at \<open>now + 1\<close> makes the divisor zero and the score infinite or NaN, so scores are
  extended reals with NaN. The comparator returns \<open>scoreB - scoreA\<close>, of which the sort uses
  the sign; a NaN counts as 0.
\<close>

datatype score = Score real | PlusInfinity | MinusInfinity | NotANumber

definition memory_score :: "int \<Rightarrow> EpisodicMemory \<Rightarrow> score" where
  "memory_score now m =
     (let x = importance m * ln (real (accessCount m) + 1);
          d = now - lastAccessed m + 1
      in if d \<noteq> 0 then Score (x * (1 / real_of_int d))
         else if x > 0 then PlusInfinity
         else if x < 0 then MinusInfinity
         else NotANumber)"

fun difference_sign :: "score \<Rightarrow> score \<Rightarrow> int" where
  "difference_sign (Score b) (Score a) = (if b - a < 0 then - 1 else if b - a > 0 then 1 else 0)"
| "difference_sign NotANumber _ = 0"
| "difference_sign _ NotANumber = 0"
| "difference_sign PlusInfinity PlusInfinity = 0"
| "difference_sign MinusInfinity MinusInfinity = 0"
| "difference_sign PlusInfinity _ = 1"
| "difference_sign _ PlusInfinity = - 1"
| "difference_sign MinusInfinity _ = - 1"
| "difference_sign _ MinusInfinity = 1"

definition consolidateMemory :: "int \<Rightarrow> FastLearner \<Rightarrow> FastLearner" where
  "consolidateMemory now fl =
     fl\<lparr>episodicMemory :=
          take (episodicMemorySize (fl_config fl))
            (js_sort (\<lambda>a b. difference_sign (memory_score now b) (memory_score now a))
               (episodicMemory fl))\<rparr>"

record LearnResult =
  learned :: bool
  recall :: bool

text \<open>
  \<open>learnFast\<close>. Every \<open>Date.now()\<close> of one call reads the same clock value \<open>now\<close>.
  A similar memory is refreshed in place; otherwise a new memory is appended, the network
  learns the pair, and the memory is consolidated when it has grown past its capacity.
\<close>

definition learnFast ::
  "TrainingExample \<Rightarrow> int \<Rightarrow> FastLearner \<Rightarrow> error + (LearnResult \<times> FastLearner)" where
  "learnFast example now fl =
     (let input = encodeText (ex_input example);
          target = encodeText (ex_output example);
          mems = episodicMemory fl
      in case findSimilar input (similarityThreshold (fl_config fl)) mems of
           Some i \<Rightarrow>
             Inr (\<lparr>learned = False, recall = True\<rparr>,
                  fl\<lparr>episodicMemory :=
                       mems[i := (mems ! i)\<lparr>accessCount := accessCount (mems ! i) + 1,
                                              lastAccessed := now,
                                              importance := importance (mems ! i) * 1.1\<rparr>]\<rparr>)
         | None \<Rightarrow>
             let memory = \<lparr>mem_id = ex_id example, mem_input = input, mem_output = target,
                            mem_context = ex_input example, mem_timestamp = now,
                            accessCount = 1, lastAccessed = now, importance = 1.0\<rparr>;
                 fl1 = fl\<lparr>episodicMemory := mems @ [memory]\<rparr>
             in case hebbianLearning input target (neuralNetwork fl1) of
                  Inl e \<Rightarrow> Inl e
                | Inr net \<Rightarrow>
                    let fl2 = fl1\<lparr>neuralNetwork := net\<rparr>
                    in Inr (\<lparr>learned = True, recall = False\<rparr>,
                            if length (episodicMemory fl2) > episodicMemorySize (fl_config fl2)
                            then consolidateMemory now fl2 else fl2))"

text \<open>
  \<open>computeError\<close>: the root mean square difference over the common length; for two empty
  vectors it is \<open>sqrt (0 / 0)\<close>, NaN.
\<close>

definition computeError :: "real list \<Rightarrow> real list \<Rightarrow> num" where
  "computeError prediction target =
     (let len = min (length prediction) (length target);
          err = (\<Sum>i\<leftarrow>[0..<len]. (prediction ! i - target ! i) * (prediction ! i - target ! i))
      in if len = 0 then NonFinite else Fin (sqrt (err / real len)))"

text \<open>
  \<open>adaptLearningStrategy\<close>: with ten or more history entries, the rate grows by 5% when
  the last of the ten most recent errors is below the first, shrinks by 5% otherwise
  (also when the difference is NaN), and is clamped into \<open>[0.001, 0.1]\<close>.
\<close>

definition adaptLearningStrategy :: "FastLearner \<Rightarrow> FastLearner" where
  "adaptLearningStrategy fl =
     (if length (learningHistory fl) < 10 then fl
      else
        let recent = drop (length (learningHistory fl) - 10) (learningHistory fl);
            improving = (case (fst (recent ! 9), fst (recent ! 0)) of
                           (Fin l, Fin f) \<Rightarrow> l - f < 0
                         | _ \<Rightarrow> False);
            rate = (if improving then metaLearningRate (fl_config fl) * 1.05
                    else metaLearningRate (fl_config fl) * 0.95)
        in fl\<lparr>fl_config := (fl_config fl)\<lparr>metaLearningRate := max 0.001 (min 0.1 rate)\<rparr>\<rparr>)"

text \<open>
  \<open>metaLearn\<close>: each example is predicted by the network; an error above the adaptive
  threshold (a NaN is not above it) triggers one more Hebbian update. The mean error of
  the batch, NaN for an empty batch, goes into the history.
\<close>

definition metaLearn_example ::
  "num list \<times> FastLearner \<Rightarrow> TrainingExample \<Rightarrow> error + (num list \<times> FastLearner)" where
  "metaLearn_example st example =
     (case st of (errors, fl) \<Rightarrow>
        let input = encodeText (ex_input example);
            target = encodeText (ex_output example)
        in case net_forward input (neuralNetwork fl) of
             Inl e \<Rightarrow> Inl e
           | Inr (prediction, net1) \<Rightarrow>
               let err = computeError prediction target;
                   fl1 = fl\<lparr>neuralNetwork := net1\<rparr>
               in if (case err of Fin v \<Rightarrow> v > adaptiveThreshold (fl_config fl) | NonFinite \<Rightarrow> False)
                  then (case hebbianLearning input target net1 of
                          Inl e \<Rightarrow> Inl e
                        | Inr net2 \<Rightarrow> Inr (errors @ [err], fl1\<lparr>neuralNetwork := net2\<rparr>))
                  else Inr (errors @ [err], fl1))"

definition metaLearn :: "TrainingExample list \<Rightarrow> int \<Rightarrow> FastLearner \<Rightarrow> error + FastLearner" where
  "metaLearn examples now fl =
     (case fold_err metaLearn_example ([], fl) examples of
        Inl e \<Rightarrow> Inl e
      | Inr (errors, fl1) \<Rightarrow>
          let mean = (case foldl num_add (Fin 0) errors of
                        Fin s \<Rightarrow> js_div s (real (length errors))
                      | NonFinite \<Rightarrow> NonFinite)
          in Inr (adaptLearningStrategy
                    (fl1\<lparr>learningHistory := learningHistory fl1 @ [(mean, now)]\<rparr>)))"



section \<open>Training engine (src/lib/finetuning/training-engine.ts)\<close>

record TrainingMetrics =
  m_step :: nat
  m_loss :: real
  m_learningRate :: num
  gradNorm :: real
  examplesProcessed :: nat
  m_timestamp :: int

record FastLearningStats =
  oneShot :: nat
  recalled :: nat
  traditional :: nat

text \<open>
  The state of the engine that \<open>trainBatch\<close> reads and writes, but for the LoRA adapter:
  the loss and the gradient norm that \<open>trainExample\<close> gets for an example from the
  tokenizer, the forward pass and the backward pass through the adapter are an argument
  \<open>trainExample\<close> of the model.
\<close>

record TrainingEngine =
  eng_config :: TrainingConfig
  eng_step :: nat
  isTraining :: bool
  metrics :: "TrainingMetrics list"
  fastLearningStats :: FastLearningStats
  fastLearner :: "FastLearner option"

text \<open>
  The first loop of \<open>trainBatch\<close>: every example goes through \<open>learnFast\<close> and is counted
  as learned, else as recalled, else kept for traditional training.
\<close>

definition fast_pass_example ::
  "int \<Rightarrow> nat \<times> nat \<times> TrainingExample list \<times> FastLearner \<times> FastLearningStats
     \<Rightarrow> TrainingExample
     \<Rightarrow> error + (nat \<times> nat \<times> TrainingExample list \<times> FastLearner \<times> FastLearningStats)" where
  "fast_pass_example now st example =
     (case st of (fastLearned, recalledCount, remainingExamples, fl, stats) \<Rightarrow>
        (case learnFast example now fl of
           Inl e \<Rightarrow> Inl e
         | Inr (result, fl') \<Rightarrow>
             if learned result
             then Inr (fastLearned + 1, recalledCount, remainingExamples, fl',
                       stats\<lparr>oneShot := oneShot stats + 1\<rparr>)
             else if recall result
             then Inr (fastLearned, recalledCount + 1, remainingExamples, fl',
                       stats\<lparr>recalled := recalled stats + 1\<rparr>)
             else Inr (fastLearned, recalledCount, remainingExamples @ [example], fl', stats)))"

text \<open>
  The traditional path: meta-learning when there is a fast learner and the batch is not
  empty, the per-example loop, the averages, the step counter, and the metrics record,
  which is appended to the log.
\<close>

definition traditional_pass ::
  "(TrainingExample \<Rightarrow> real \<times> real) \<Rightarrow> TrainingExample list \<Rightarrow> int \<Rightarrow> TrainingEngine
     \<Rightarrow> error + (TrainingMetrics \<times> TrainingEngine)" where
  "traditional_pass trainExample examples now eng =
     (case (case fastLearner eng of
              Some fl \<Rightarrow> (if examples \<noteq> []
                          then (case metaLearn examples now fl of
                                  Inl e \<Rightarrow> Inl e
                                | Inr fl' \<Rightarrow> Inr (Some fl'))
                          else Inr (Some fl))
            | None \<Rightarrow> Inr None) of
        Inl e \<Rightarrow> Inl e
      | Inr learner \<Rightarrow>
          let totalLoss = (\<Sum>ex\<leftarrow>examples. fst (trainExample ex));
              totalGradNorm = (\<Sum>ex\<leftarrow>examples. snd (trainExample ex));
              stats = fastLearningStats eng;
              avgLoss = (if length examples > 0 then totalLoss / real (length examples)
                         else 0.01);
              avgGradNorm = (if length examples > 0 then totalGradNorm / real (length examples)
                             else 0);
              newStep = eng_step eng + 1;
              record = \<lparr>m_step = newStep, m_loss = avgLoss,
                        m_learningRate = getLearningRate (eng_config eng) newStep,
                        gradNorm = avgGradNorm, examplesProcessed = length examples,
                        m_timestamp = now\<rparr>
          in Inr (record,
                  eng\<lparr>fastLearner := learner,
                      fastLearningStats :=
                        stats\<lparr>traditional := traditional stats + length examples\<rparr>,
                      eng_step := newStep,
                      metrics := metrics eng @ [record],
                      isTraining := False\<rparr>))"

text \<open>
  \<open>trainBatch\<close>. With a fast learner, a batch none of whose examples is left over returns
  at once: the record has the fixed loss 0.01 and the step counter before its increment,
  and the learning rate is read after the increment. This return does not touch the
  metrics log. An exception leaves \<open>isTraining\<close> set; the model then returns the error.
\<close>

definition trainBatch ::
  "(TrainingExample \<Rightarrow> real \<times> real) \<Rightarrow> TrainingExample list \<Rightarrow> int \<Rightarrow> TrainingEngine
     \<Rightarrow> error + (TrainingMetrics \<times> TrainingEngine)" where
  "trainBatch trainExample examples now eng =
     (let eng0 = eng\<lparr>isTraining := True\<rparr>
      in case fastLearner eng0 of
           None \<Rightarrow> traditional_pass trainExample examples now eng0
         | Some fl \<Rightarrow>
             (case fold_err (fast_pass_example now) (0, 0, [], fl, fastLearningStats eng0)
                     examples of
                Inl e \<Rightarrow> Inl e
              | Inr (fastLearned, recalledCount, remainingExamples, fl', stats) \<Rightarrow>
                  let eng1 = eng0\<lparr>fastLearner := Some fl', fastLearningStats := stats\<rparr>
                  in if length remainingExamples = 0
                     then Inr (\<lparr>m_step = eng_step eng1, m_loss = 0.01,
                                m_learningRate =
                                  getLearningRate (eng_config eng1) (eng_step eng1 + 1),
                                gradNorm = 0, examplesProcessed = length examples,
                                m_timestamp = now\<rparr>,
                               eng1\<lparr>isTraining := False, eng_step := eng_step eng1 + 1\<rparr>)
                     else traditional_pass trainExample remainingExamples now eng1))"

text \<open>What a call of \<open>trainBatch\<close> leaves: the loss it reports and the length of the log.\<close>

definition batch_summary ::
  "error + (TrainingMetrics \<times> TrainingEngine) \<Rightarrow> error + (real \<times> nat \<times> nat)" where
  "batch_summary r =
     map_sum id (\<lambda>(m, eng). (m_loss m, examplesProcessed m, length (metrics eng))) r"

section \<open>Invariants\<close>

text \<open>
  The invariant of the weight updater: there is a snapshot, and every snapshotted weight
  has a live weight of the same name and the same length.
\<close>

definition snapshot_fits :: "ModelWeights \<Rightarrow> WeightSnapshot \<Rightarrow> bool" where
  "snapshot_fits cur snap =
     (\<forall>name w. snap_weights snap name = Some w \<longrightarrow>
        (\<exists>cw. cur name = Some cw \<and> length cw = length w))"

definition wu_inv :: "WeightUpdater \<Rightarrow> bool" where
  "wu_inv s = (snapshots s \<noteq> [] \<and> (\<forall>snap \<in> set (snapshots s). snapshot_fits (currentWeights s) snap))"

text \<open>
  What a sequence of mutations without periodic snapshot keeps: the newest snapshot holds
  the weights \<open>W\<close>, and the live weights have the names and lengths of \<open>W\<close>.
\<close>

definition same_shape :: "ModelWeights \<Rightarrow> ModelWeights \<Rightarrow> bool" where
  "same_shape W cur =
     (\<forall>name. (case W name of
                 None \<Rightarrow> cur name = None
               | Some w \<Rightarrow> (\<exists>cw. cur name = Some cw \<and> length cw = length w)))"

definition newest_is :: "ModelWeights \<Rightarrow> Metrics option \<Rightarrow> WeightUpdater \<Rightarrow> bool" where
  "newest_is W m s =
     (snapshots s \<noteq> [] \<and> snap_weights (last (snapshots s)) = W
      \<and> snap_metrics (last (snapshots s)) = m \<and> same_shape W (currentWeights s))"

text \<open>Every connection weight of every neuron lies in \<open>[-1, 1]\<close>.\<close>

definition conns_ok :: "(nat \<times> real) list \<Rightarrow> bool" where
  "conns_ok conns = (\<forall>(targetId, weight) \<in> set conns. - 1 \<le> weight \<and> weight \<le> 1)"

definition weights_ok :: "Neuron list \<Rightarrow> bool" where
  "weights_ok ns = (\<forall>n \<in> set ns. conns_ok (connections n))"

text \<open>The network holds as many neurons as its configuration says.\<close>

definition network_sized :: "SimulatedNeuralNetwork \<Rightarrow> bool" where
  "network_sized net = (length (neurons net) = numNeurons (net_config net))"

text \<open>
  A well-formed neuron array: the neuron at position \<open>i\<close> has id \<open>i\<close>, and every connection
  leads to a neuron of the array.
\<close>

definition targets_ok :: "nat \<Rightarrow> (nat \<times> real) list \<Rightarrow> bool" where
  "targets_ok k conns = (\<forall>(targetId, weight) \<in> set conns. targetId < k)"

definition neurons_wf :: "Neuron list \<Rightarrow> bool" where
  "neurons_wf ns =
     (map neuron_id ns = [0..<length ns] \<and> (\<forall>n \<in> set ns. targets_ok (length ns) (connections n)))"

definition net_wf :: "SimulatedNeuralNetwork \<Rightarrow> bool" where
  "net_wf net = (network_sized net \<and> neurons_wf (neurons net))"

text \<open>
  The calls that return: all but \<open>hebbianLearning\<close> with an empty input, a target slot
  above 0.5 and a network that has neurons.
\<close>

fun op_terminates :: "NeuronConfig \<Rightarrow> net_op \<Rightarrow> bool" where
  "op_terminates cfg (HebbianLearning input target) =
     (\<not> (input = [] \<and> numNeurons cfg > 0 \<and> (\<exists>t \<in> set target. t > 0.5)))"
| "op_terminates cfg (Forward input) = True"
| "op_terminates cfg (PruneConnections thr) = True"

section \<open>Concrete inputs\<close>

subsection \<open>Training queue\<close>

definition dup_example :: TrainingExample where
  "dup_example = \<lparr>ex_id = ''a'', ex_input = [], ex_output = [], priority = LOW,
                    timestamp = 0, metadata = None\<rparr>"

text \<open>
  \<open>low_example i\<close> is a LOW-priority example created at time \<open>i\<close>, with an id of its own.
  \<open>full_queue\<close> is the queue after \<open>addBatch\<close> of the first 10000 of them: it holds
  \<open>maxQueueSize\<close> entries.
\<close>

definition low_example :: "nat \<Rightarrow> TrainingExample" where
  "low_example i = \<lparr>ex_id = replicate i CHR ''x'', ex_input = [], ex_output = [], priority = LOW,
                      timestamp = int i, metadata = None\<rparr>"

definition full_queue :: TrainingQueue where
  "full_queue = addBatch (map low_example [0..<10000]) new_queue"

definition new_high :: TrainingExample where
  "new_high = \<lparr>ex_id = ''new'', ex_input = [], ex_output = [], priority = HIGH,
                 timestamp = 10000, metadata = None\<rparr>"

subsection \<open>Weight updater\<close>

text \<open>
  The store of Scenario D: one weight \<open>w = [1, 2, 3]\<close>, an updater constructed with the
  default configuration, then an explicit \<open>createSnapshot()\<close>.
\<close>

definition w0 :: ModelWeights where
  "w0 = [''w'' \<mapsto> [Fin 1, Fin 2, Fin 3]]"

definition snapshotted :: WeightUpdater where
  "snapshotted = createSnapshot None 1 (constructor w0 default_config 0)"

definition weight_after_rollback :: "WeightUpdater \<Rightarrow> string \<Rightarrow> Float32Array option" where
  "weight_after_rollback s name =
     (case rollback None s of Inl e \<Rightarrow> None | Inr (b, s') \<Rightarrow> getWeight name s')"

subsection \<open>LoRA adapter\<close>




subsection \<open>Learning-rate schedule\<close>

definition schedule_config :: TrainingConfig where
  "schedule_config = \<lparr>mode = HybridMode, learningRate = 1 / 1000, batchSize = 4,
                        warmupSteps = 100, maxSteps = 1000\<rparr>"

subsection \<open>Simulated neurons\<close>

text \<open>A source of random numbers that always returns 0: every pair of neurons is connected.\<close>

definition zero_random :: "nat \<Rightarrow> real" where
  "zero_random k = 0"

definition small_neuron_config :: NeuronConfig where
  "small_neuron_config =
     \<lparr>numNeurons = 2, threshold = 1, refractoryPeriod = 5, leakRate = 1 / 10,
      synapticStrength = 1 / 2, plasticityRate = 1 / 100, enableSTDP = True\<rparr>"

definition negative_strength_config :: NeuronConfig where
  "negative_strength_config = small_neuron_config\<lparr>synapticStrength := - 4\<rparr>"

subsection \<open>Fast learner\<close>

definition small_learner_config :: FastLearnerConfig where
  "small_learner_config =
     \<lparr>episodicMemorySize = 1000, similarityThreshold = 85 / 100, metaLearningRate = 1 / 100,
      adaptiveThreshold = 1 / 10, neuronConfig = small_neuron_config\<rparr>"

text \<open>An example with the texts "hi" and "ok", and one whose texts are empty.\<close>

definition hello_example :: TrainingExample where
  "hello_example = \<lparr>ex_id = ''e1'', ex_input = [104, 105], ex_output = [111, 107],
                     priority = HIGH, timestamp = 1, metadata = None\<rparr>"


subsection \<open>Training engine\<close>

text \<open>
  An engine with the fast learner enabled, before its first batch, and a stand-in for the
  collaborators that reports loss 1 and gradient norm 1 for every example.
\<close>

definition fast_engine :: TrainingEngine where
  "fast_engine =
     \<lparr>eng_config = schedule_config, eng_step = 0, isTraining = False, metrics = [],
      fastLearningStats = \<lparr>oneShot = 0, recalled = 0, traditional = 0\<rparr>,
      fastLearner = Some (new_learner small_learner_config zero_random)\<rparr>"

definition unit_loss :: "TrainingExample \<Rightarrow> real \<times> real" where
  "unit_loss ex = (1, 1)"

section \<open>Properties of the training queue\<close>

lemma add_processed_noop: "ex_id e \<in> processedIds q \<Longrightarrow> add e q = q"
  by (simp add: add_def)

lemma removeBatch_marks_processed: "i \<in> set ids \<Longrightarrow> i \<in> processedIds (removeBatch ids q)"
  by (simp add: removeBatch_def)

text \<open>
  Claim C1 (duplicate ids). \<open>add\<close> looks the id up in \<open>processedIds\<close> only, and only
  \<open>removeBatch\<close> puts ids there: an example that is still enqueued is not recognised.
  Adding the same example twice to a new queue leaves it in the queue twice, so the
  second \<open>add\<close> is not a no-op.
\<close>

theorem add_duplicate_of_enqueued_grows:
  "size_queue (add dup_example new_queue) = 1 \<and>
   size_queue (add dup_example (add dup_example new_queue)) = 2 \<and>
   queue (add dup_example (add dup_example new_queue)) = [dup_example, dup_example]"
  by (simp add: add_def new_queue_def dup_example_def size_queue_def sortByPriority_def
      compare_examples_def)

lemma js_sort_sorted:
  fixes cmp :: "'a \<Rightarrow> 'a \<Rightarrow> int"
  shows "sorted_wrt (\<lambda>a b. cmp a b \<le> 0) xs \<Longrightarrow> js_sort cmp xs = xs"
proof (induction xs)
  case Nil
  then show ?case by simp
next
  case (Cons x xs)
  then show ?case by (cases xs) auto
qed

lemma js_sort_snoc_least:
  fixes cmp :: "'a \<Rightarrow> 'a \<Rightarrow> int"
  shows "\<forall>y\<in>set xs. cmp y x > 0 \<Longrightarrow> js_sort cmp (xs @ [x]) = x # js_sort cmp xs"
  by (induction xs) auto

lemma low_sorted:
  "sorted_wrt (\<lambda>a b. compare_examples a b \<le> 0) (map low_example (rev [0..<n]))"
  by (simp add: sorted_wrt_map sorted_wrt_rev compare_examples_def low_example_def
      sorted_wrt_iff_nth_less rev_nth)

lemma low_example_inj: "low_example i = low_example j \<longleftrightarrow> i = j"
  by (auto simp: low_example_def)

lemma addBatch_low:
  "n \<le> 10000 \<Longrightarrow> addBatch (map low_example [0..<n]) new_queue =
     \<lparr>queue = map low_example (rev [0..<n]), processedIds = {}, maxQueueSize = 10000\<rparr>"
proof (induction n)
  case 0
  then show ?case by (simp add: addBatch_def new_queue_def)
next
  case (Suc n)
  have s: "js_sort compare_examples (map low_example (rev [0..<n]) @ [low_example n])
        = low_example n # map low_example (rev [0..<n])"
    using js_sort_snoc_least[of "map low_example (rev [0..<n])" compare_examples "low_example n"]
          js_sort_sorted[OF low_sorted, of n]
    by (simp add: compare_examples_def low_example_def)
  from Suc have ih: "addBatch (map low_example [0..<n]) new_queue =
     \<lparr>queue = map low_example (rev [0..<n]), processedIds = {}, maxQueueSize = 10000\<rparr>"
    by simp
  have "addBatch (map low_example [0..<Suc n]) new_queue
      = add (low_example n) (addBatch (map low_example [0..<n]) new_queue)"
    by (simp add: addBatch_def)
  also have "\<dots> = \<lparr>queue = map low_example (rev [0..<Suc n]), processedIds = {},
                        maxQueueSize = 10000\<rparr>"
    using Suc.prems s by (simp add: ih add_def sortByPriority_def)
  finally show ?case .
qed

text \<open>
  On a full queue whose tail is sorted, adding an example that ranks before every entry
  removes the head of the queue and nothing else.
\<close>

lemma add_full_removes_head:
  assumes "maxQueueSize q \<le> Suc (length xs)" "queue q = x # xs" "ex_id e \<notin> processedIds q"
    "sorted_wrt (\<lambda>a b. compare_examples a b \<le> 0) xs" "\<forall>y\<in>set xs. compare_examples y e > 0"
  shows "queue (add e q) = e # xs"
  using assms js_sort_snoc_least[of xs compare_examples e] js_sort_sorted[of compare_examples xs]
  by (simp add: add_def sortByPriority_def)

lemma full_queue_eq:
  "full_queue = \<lparr>queue = low_example 9999 # map low_example (rev [0..<9999]),
                  processedIds = {}, maxQueueSize = 10000\<rparr>"
proof -
  have "[0..<10000] = [0..<9999] @ [9999::nat]"
    using upt_Suc_append[of 0 9999] by (simp del: upt_Suc)
  then show ?thesis
    unfolding full_queue_def using addBatch_low[of 10000] by simp
qed

text \<open>
  Claim C2 (eviction at capacity). The queue is kept sorted by priority descending, then
  timestamp descending, and \<open>add\<close> evicts with \<open>shift()\<close>, which removes the first
  element: the highest-ranked entry, not the lowest-ranked one. In the full queue of 10000
  LOW examples with timestamps 0 to 9999 the head is the newest (timestamp 9999) and the
  last entry the oldest (timestamp 0). Adding one more example evicts exactly one entry,
  the newest one; the oldest stays enqueued.
\<close>

theorem add_at_capacity_evicts_head:
  "size_queue full_queue = 10000 \<and>
   hd (queue full_queue) = low_example 9999 \<and> last (queue full_queue) = low_example 0 \<and>
   queue (add new_high full_queue) = new_high # map low_example (rev [0..<9999]) \<and>
   low_example 9999 \<notin> set (queue (add new_high full_queue)) \<and>
   low_example 0 \<in> set (queue (add new_high full_queue))"
proof -
  have q: "queue (add new_high full_queue) = new_high # map low_example (rev [0..<9999])"
    apply (rule add_full_removes_head[where x = "low_example 9999"])
    apply (simp_all add: full_queue_eq low_sorted)
    apply (simp add: compare_examples_def low_example_def new_high_def)
    done
  have s: "size_queue full_queue = 10000"
    by (simp add: size_queue_def full_queue_eq)
  have h: "hd (queue full_queue) = low_example 9999"
    by (simp add: full_queue_eq)
  have l: "last (queue full_queue) = low_example 0"
    by (simp add: full_queue_eq last_map last_rev)
  have n: "low_example 9999 \<noteq> new_high"
    by (simp add: low_example_def new_high_def)
  have e: "low_example 9999 \<notin> set (queue (add new_high full_queue))"
    using n by (simp add: q low_example_inj image_iff)
  have "low_example 0 \<in> low_example ` {0..<9999}"
    by (rule imageI) simp
  then have m: "low_example 0 \<in> set (queue (add new_high full_queue))"
    by (simp add: q)
  show ?thesis
    using s h l q e m by blast
qed

section \<open>Properties of the weight updater\<close>

lemma typed_set_length: "typed_set t src = Inr w \<Longrightarrow> length w = length t"
  by (auto simp: typed_set_def split: if_splits)

lemma snapshot_fits_self:
  "snapshot_fits cur \<lparr>snap_timestamp = now, snap_weights = cur, snap_metrics = m\<rparr>"
  by (simp add: snapshot_fits_def)

lemma snapshot_fits_upd_same_length:
  "snapshot_fits cur snap \<Longrightarrow> cur name = Some cw \<Longrightarrow> length w = length cw \<Longrightarrow>
   snapshot_fits (cur(name \<mapsto> w)) snap"
  by (fastforce simp: snapshot_fits_def)

lemma snapshot_fits_upd_new:
  "snapshot_fits cur snap \<Longrightarrow> cur name = None \<Longrightarrow> snapshot_fits (cur(name \<mapsto> w)) snap"
  by (fastforce simp: snapshot_fits_def)

lemma createSnapshot_fits:
  assumes "\<forall>snap \<in> set (snapshots s). snapshot_fits (currentWeights s) snap"
  shows "\<forall>snap \<in> set (snapshots (createSnapshot m now s)).
           snapshot_fits (currentWeights (createSnapshot m now s)) snap"
  using assms by (auto simp: createSnapshot_def Let_def snapshot_fits_self dest!: list.set_sel(2)[rotated])

lemma createSnapshot_nonempty:
  "snapshots s \<noteq> [] \<or> 1 \<le> maxSnapshots (wu_config s) \<Longrightarrow> snapshots (createSnapshot m now s) \<noteq> []"
  by (cases "snapshots s") (auto simp: createSnapshot_def Let_def)

lemma createSnapshot_inv: "wu_inv s \<Longrightarrow> wu_inv (createSnapshot m now s)"
  unfolding wu_inv_def using createSnapshot_fits createSnapshot_nonempty by blast

lemma constructor_inv: "1 \<le> maxSnapshots cfg \<Longrightarrow> wu_inv (constructor w cfg now)"
  unfolding wu_inv_def constructor_def
  by (intro conjI createSnapshot_fits createSnapshot_nonempty) auto

lemma applyUpdate_inv: "wu_inv s \<Longrightarrow> wu_inv (applyUpdate name delta al now s)"
proof (cases "currentWeights s name")
  case None
  then show "wu_inv s \<Longrightarrow> ?thesis" by (simp add: applyUpdate_def)
next
  case (Some cw)
  assume i: "wu_inv s"
  let ?upd = "map (\<lambda>i. num_add (cw ! i) (num_mul (Fin al) (rd delta i))) [0..<length cw]"
  let ?s1 = "s\<lparr>currentWeights := (currentWeights s)(name \<mapsto> ?upd), updateCount := updateCount s + 1\<rparr>"
  have "wu_inv ?s1"
    using i Some by (auto simp: wu_inv_def intro!: snapshot_fits_upd_same_length)
  then show ?thesis
    using Some createSnapshot_inv[of ?s1 None now] by (simp add: applyUpdate_def Let_def)
qed

lemma applyBatchUpdate_inv: "wu_inv s \<Longrightarrow> wu_inv (applyBatchUpdate updates al now s)"
  unfolding applyBatchUpdate_def
  by (induction updates arbitrary: s) (auto simp: applyUpdate_inv)

lemma replaceWeight_inv: "wu_inv s \<Longrightarrow> wu_inv (snd (replaceWeight name w s))"
  by (auto simp: replaceWeight_def wu_inv_def split: option.splits sum.splits
      dest!: typed_set_length intro!: snapshot_fits_upd_same_length)

lemma importEntries_fits:
  "\<forall>snap \<in> S. snapshot_fits cur snap \<Longrightarrow>
   \<forall>snap \<in> S. snapshot_fits (snd (importEntries ws cur)) snap"
proof (induction ws cur rule: importEntries.induct)
  case (1 cur)
  then show ?case by simp
next
  case (2 name weight rest cur)
  show ?case
  proof (cases "cur name")
    case None
    have "\<forall>snap\<in>S. snapshot_fits (cur(name \<mapsto> weight)) snap"
      using 2(3) None by (auto intro!: snapshot_fits_upd_new)
    from 2(1)[OF None this] show ?thesis
      by (simp only: importEntries.simps None option.case)
  next
    case (Some cw)
    show ?thesis
    proof (cases "typed_set cw weight")
      case (Inl e)
      with 2 Some show ?thesis by simp
    next
      case (Inr w')
      have "\<forall>snap\<in>S. snapshot_fits (cur(name \<mapsto> w')) snap"
        using 2(3) Some typed_set_length[OF Inr] by (auto intro!: snapshot_fits_upd_same_length)
      from 2(2)[OF Some Inr this] show ?thesis
        by (simp only: importEntries.simps Some Inr option.case sum.case)
    qed
  qed
qed

lemma importWeights_inv: "wu_inv s \<Longrightarrow> wu_inv (snd (importWeights ws now s))"
proof -
  assume i: "wu_inv s"
  obtain e cur where ie: "importEntries ws (currentWeights s) = (e, cur)" by force
  have f: "\<forall>snap \<in> set (snapshots s). snapshot_fits cur snap"
    using importEntries_fits[of "set (snapshots s)" "currentWeights s" ws] i ie
    by (simp add: wu_inv_def)
  then have "wu_inv (s\<lparr>currentWeights := cur\<rparr>)" using i by (simp add: wu_inv_def)
  then show ?thesis
    using ie createSnapshot_inv[of "s\<lparr>currentWeights := cur\<rparr>" None now]
    by (cases e) (simp_all add: importWeights_def)
qed

lemma clearOldSnapshots_inv: "wu_inv s \<Longrightarrow> wu_inv (clearOldSnapshots s)"
  by (auto simp: clearOldSnapshots_def wu_inv_def)

lemma updateConfig_inv: "wu_inv s \<Longrightarrow> wu_inv (updateConfig c s)"
  by (auto simp: updateConfig_def wu_inv_def)

lemma fits_restorable: "snapshot_fits cur snap \<Longrightarrow> restorable (snap_weights snap) cur"
  by (fastforce simp: snapshot_fits_def restorable_def)

lemma restore_fits:
  "restorable sw cur \<Longrightarrow> snapshot_fits cur snap \<Longrightarrow> snapshot_fits (restore sw cur) snap"
  unfolding snapshot_fits_def restorable_def restore_def
  by (fastforce split: option.splits)

lemma rollback_inv: "wu_inv s \<Longrightarrow> rollback i s = Inr (b, s') \<Longrightarrow> wu_inv s'"
  by (auto simp: rollback_def wu_inv_def Let_def restore_fits split: if_splits)

lemma rollback_default_succeeds:
  assumes "wu_inv s"
  shows "\<exists>s'. rollback None s = Inr (True, s')"
proof -
  from assms have ne: "snapshots s \<noteq> []" by (simp add: wu_inv_def)
  then have "nat (int (length (snapshots s)) - 1) < length (snapshots s)" by (cases "snapshots s") auto
  then have "snapshots s ! nat (int (length (snapshots s)) - 1) \<in> set (snapshots s)" by simp
  with assms have "restorable (snap_weights (snapshots s ! nat (int (length (snapshots s)) - 1))) (currentWeights s)"
    by (auto simp: wu_inv_def intro: fits_restorable)
  with ne show ?thesis by (simp add: rollback_def Let_def)
qed

lemma rollback_total: "wu_inv s \<Longrightarrow> \<exists>b s'. rollback i s = Inr (b, s')"
proof -
  assume a: "wu_inv s"
  have k: "restorable (snap_weights (snapshots s ! k)) (currentWeights s)"
    if "k < length (snapshots s)" for k
    using a that by (auto simp: wu_inv_def intro: fits_restorable)
  show ?thesis
  proof (cases i)
    case None
    with rollback_default_succeeds[OF a] show ?thesis by blast
  next
    case (Some j)
    show ?thesis
    proof (cases "j < 0 \<or> j \<ge> int (length (snapshots s))")
      case True
      with Some show ?thesis by (auto simp: rollback_def)
    next
      case False
      then have "nat j < length (snapshots s)" by auto
      from k[OF this] False Some show ?thesis by (auto simp: rollback_def Let_def)
    qed
  qed
qed

lemma step_inv: "wu_inv s \<Longrightarrow> \<exists>s'. wu_step c s = Inr s' \<and> wu_inv s'"
proof (cases c)
  case (Pair op now)
  assume a: "wu_inv s"
  show ?thesis
  proof (cases op)
    case (Rollback i)
    from rollback_total[OF a, of i] obtain b s' where r: "rollback i s = Inr (b, s')" by blast
    with rollback_inv[OF a r] Pair Rollback show ?thesis by simp
  qed (use a Pair in \<open>simp_all add: applyUpdate_inv applyBatchUpdate_inv replaceWeight_inv
        createSnapshot_inv clearOldSnapshots_inv importWeights_inv updateConfig_inv\<close>)
qed

lemma run_inv: "wu_inv s \<Longrightarrow> \<exists>s'. wu_run cs s = Inr s' \<and> wu_inv s'"
proof (induction cs arbitrary: s)
  case Nil
  then show ?case by simp
next
  case (Cons c cs)
  from step_inv[OF Cons.prems, of c] obtain s1 where s1: "wu_step c s = Inr s1" "wu_inv s1" by blast
  with Cons.IH[OF s1(2)] show ?case by simp
qed

text \<open>
  Claim C10 (a snapshot always exists). For an updater constructed with
  \<open>maxSnapshots \<ge> 1\<close>, every sequence of public calls runs through without a RangeError
  of \<open>rollback\<close>, leaves a non-empty snapshot list, and \<open>rollback()\<close> without an index
  then returns true.
\<close>

theorem snapshots_never_empty:
  assumes "1 \<le> maxSnapshots cfg"
  shows "\<exists>s. wu_run cs (constructor w cfg now) = Inr s \<and> snapshots s \<noteq> [] \<and>
             (\<exists>s'. rollback None s = Inr (True, s'))"
proof -
  from run_inv[OF constructor_inv[OF assms]] obtain s where
    s: "wu_run cs (constructor w cfg now) = Inr s" "wu_inv s" by blast
  with rollback_default_succeeds[OF s(2)] show ?thesis by (auto simp: wu_inv_def)
qed

theorem snapshots_never_empty_witness:
  "1 \<le> maxSnapshots default_config \<and>
   (\<exists>s. wu_run [(ApplyUpdate ''w'' [Fin 1, Fin 1, Fin 1] 1, 1), (ClearOldSnapshots, 2),
              (Rollback None, 3)] (constructor w0 default_config 0) = Inr s \<and>
        snapshots s \<noteq> [] \<and> (\<exists>s'. rollback None s = Inr (True, s')))"
  using snapshots_never_empty[of default_config
      "[(ApplyUpdate ''w'' [Fin 1, Fin 1, Fin 1] 1, 1), (ClearOldSnapshots, 2), (Rollback None, 3)]"
      w0 0]
  by (simp add: default_config_def)

lemma same_shape_refl: "same_shape W W"
  by (auto simp: same_shape_def split: option.splits)

lemma same_shape_upd:
  "same_shape W cur \<Longrightarrow> cur name = Some cw \<Longrightarrow> length w = length cw \<Longrightarrow>
   same_shape W (cur(name \<mapsto> w))"
proof -
  assume a: "same_shape W cur" "cur name = Some cw" "length w = length cw"
  show ?thesis
    unfolding same_shape_def
  proof
    fix n
    from a(1) have h: "case W n of None \<Rightarrow> cur n = None
                      | Some w \<Rightarrow> (\<exists>cw. cur n = Some cw \<and> length cw = length w)"
      by (simp add: same_shape_def)
    show "case W n of None \<Rightarrow> (cur(name \<mapsto> w)) n = None
          | Some wa \<Rightarrow> (\<exists>cw. (cur(name \<mapsto> w)) n = Some cw \<and> length cw = length wa)"
      using h a(2,3) by (cases "W n") auto
  qed
qed

lemma createSnapshot_newest:
  "1 \<le> maxSnapshots (wu_config s) \<Longrightarrow> newest_is (currentWeights s) m (createSnapshot m now s)"
  by (cases "snapshots s") (auto simp: newest_is_def createSnapshot_def Let_def same_shape_refl)

lemma mutate_newest:
  assumes "newest_is W m s" "\<not> takes_snapshot c s"
  shows "newest_is W m (mutate c s)"
proof (cases c)
  case (Pair mu now)
  show ?thesis
  proof (cases mu)
    case (MApplyUpdate name delta al)
    with assms Pair show ?thesis
      by (auto simp: applyUpdate_def newest_is_def Let_def split: option.splits
          intro!: same_shape_upd)
  next
    case (MReplaceWeight name w)
    with assms Pair show ?thesis
      by (auto simp: replaceWeight_def newest_is_def split: option.splits sum.splits
          dest!: typed_set_length intro!: same_shape_upd)
  qed
qed

lemma mutate_all_newest:
  "newest_is W m s \<Longrightarrow> no_periodic_snapshot ms s \<Longrightarrow> newest_is W m (mutate_all ms s)"
  by (induction ms arbitrary: s) (auto simp: mutate_newest)

lemma same_shape_restorable: "same_shape W cur \<Longrightarrow> restorable W cur"
  unfolding same_shape_def restorable_def
proof (intro allI impI)
  fix name w cw
  assume a: "\<forall>name. case W name of None \<Rightarrow> cur name = None
                    | Some w \<Rightarrow> (\<exists>cw. cur name = Some cw \<and> length cw = length w)"
    and b: "W name = Some w" "cur name = Some cw"
  from a have "case W name of None \<Rightarrow> cur name = None
                    | Some w \<Rightarrow> (\<exists>cw. cur name = Some cw \<and> length cw = length w)" ..
  with b show "length w \<le> length cw" by auto
qed

lemma same_shape_restore: "same_shape W cur \<Longrightarrow> restore W cur = W"
proof
  fix name
  assume s: "same_shape W cur"
  show "restore W cur name = W name"
  proof (cases "W name")
    case None
    with s have "cur name = None" by (auto simp: same_shape_def split: option.splits dest: spec[of _ name])
    with None show ?thesis by (simp add: restore_def)
  next
    case (Some w)
    with s obtain cw where "cur name = Some cw" "length cw = length w"
      by (auto simp: same_shape_def split: option.splits dest: spec[of _ name])
    with Some show ?thesis by (simp add: restore_def)
  qed
qed

lemma rollback_newest:
  assumes "newest_is W m s"
  shows "rollback None s = Inr (True, s\<lparr>currentWeights := W, lastMetrics := m\<rparr>)"
proof -
  from assms have ne: "snapshots s \<noteq> []" by (simp add: newest_is_def)
  then have l: "snapshots s ! nat (int (length (snapshots s)) - 1) = last (snapshots s)"
    by (simp add: last_conv_nth nat_diff_distrib')
  from assms have "restorable W (currentWeights s)" "restore W (currentWeights s) = W"
    by (auto simp: newest_is_def same_shape_restorable same_shape_restore)
  with assms ne l show ?thesis by (simp add: rollback_def Let_def newest_is_def)
qed

text \<open>
  Claim C5 (rollback), as amended. Let \<open>maxSnapshots \<ge> 1\<close>, take a snapshot with
  \<open>createSnapshot\<close> and then wu_run any sequence of \<open>applyUpdate\<close> and \<open>replaceWeight\<close>
  calls none of which is a \<open>snapshotInterval\<close>-th update (so that \<open>applyUpdate\<close> takes
  no periodic snapshot in between). Then \<open>rollback()\<close> returns true and the live weights
  are exactly the weights at the time of the snapshot.
\<close>

theorem rollback_restores_snapshot:
  assumes "1 \<le> maxSnapshots (wu_config s)"
    and "no_periodic_snapshot ms (createSnapshot m now s)"
  shows "rollback None (mutate_all ms (createSnapshot m now s)) =
           Inr (True, (mutate_all ms (createSnapshot m now s))
                        \<lparr>currentWeights := currentWeights s, lastMetrics := m\<rparr>)"
  using rollback_newest[OF mutate_all_newest[OF createSnapshot_newest[OF assms(1)] assms(2)]] .

lemma apply_k:
  assumes "currentWeights s = [''w'' \<mapsto> [Fin a, Fin b, Fin c]]"
    "snapshotInterval (wu_config s) = 10" "updateCount s + k < 10"
  shows "mutate_all (replicate k (MApplyUpdate ''w'' [Fin 1, Fin 1, Fin 1] 1, t)) s =
     s\<lparr>currentWeights := [''w'' \<mapsto> [Fin (a + real k), Fin (b + real k), Fin (c + real k)]],
       updateCount := updateCount s + k\<rparr>"
  using assms
proof (induction k arbitrary: s a b c)
  case 0
  then show ?case by simp
next
  case (Suc k)
  let ?s1 = "applyUpdate ''w'' [Fin 1, Fin 1, Fin 1] 1 t s"
  have cw: "currentWeights s ''w'' = Some [Fin a, Fin b, Fin c]"
    using Suc.prems(1) by simp
  have up: "(currentWeights s)(''w'' \<mapsto> v) = [''w'' \<mapsto> v]" for v
    by (rule ext) (simp add: Suc.prems(1))
  have s1: "?s1 = s\<lparr>currentWeights := [''w'' \<mapsto> [Fin (a + 1), Fin (b + 1), Fin (c + 1)]],
       updateCount := updateCount s + 1\<rparr>"
    using cw up Suc.prems(2,3) by (simp add: applyUpdate_def Let_def rd_def)
  have "mutate_all (replicate k (MApplyUpdate ''w'' [Fin 1, Fin 1, Fin 1] 1, t)) ?s1 =
     ?s1\<lparr>currentWeights := [''w'' \<mapsto> [Fin (a + 1 + real k), Fin (b + 1 + real k), Fin (c + 1 + real k)]],
       updateCount := updateCount ?s1 + k\<rparr>"
    apply (rule Suc.IH) using Suc.prems by (simp_all add: s1)
  then show ?case by (simp add: s1 algebra_simps fun_upd_def)
qed

lemma snapshotted_eq: "snapshotted = \<lparr>currentWeights = w0,
    snapshots = [\<lparr>snap_timestamp = 0, snap_weights = w0, snap_metrics = None\<rparr>,
                 \<lparr>snap_timestamp = 1, snap_weights = w0, snap_metrics = None\<rparr>],
    wu_config = default_config, updateCount = 0, lastMetrics = None\<rparr>"
  by (simp add: snapshotted_def constructor_def createSnapshot_def default_config_def)

text \<open>
  Claim C5 as stated fails: \<open>applyUpdate\<close> takes a snapshot of its own on every
  \<open>snapshotInterval\<close>-th update, and \<open>rollback()\<close> restores the newest snapshot. After
  the explicit snapshot of \<open>w = [1, 2, 3]\<close> and ten updates by \<open>[1, 1, 1]\<close> (default
  interval 10), \<open>rollback()\<close> leaves \<open>w = [11, 12, 13]\<close>.
\<close>

theorem rollback_after_periodic_snapshot_counterexample:
  "getWeight ''w'' snapshotted = Some [Fin 1, Fin 2, Fin 3] \<and>
   weight_after_rollback
     (mutate_all (replicate 10 (MApplyUpdate ''w'' [Fin 1, Fin 1, Fin 1] 1, 2)) snapshotted) ''w''
     = Some [Fin 11, Fin 12, Fin 13]"
proof -
  have r: "replicate 10 x = replicate 9 x @ [x]" for x :: "mutation \<times> int"
    by (simp add: numeral_eq_Suc replicate_append_same)
  have m: "mutate_all (xs @ [x]) s = mutate x (mutate_all xs s)" for xs x s
    by (induction xs arbitrary: s) auto
  have n: "mutate_all (replicate 9 (MApplyUpdate ''w'' [Fin 1, Fin 1, Fin 1] 1, 2)) snapshotted
     = snapshotted\<lparr>currentWeights := [''w'' \<mapsto> [Fin 10, Fin 11, Fin 12]], updateCount := 9\<rparr>"
    using apply_k[of snapshotted 1 2 3 9 2] by (simp add: snapshotted_eq w0_def default_config_def)
  have g: "getWeight ''w'' snapshotted = Some [Fin 1, Fin 2, Fin 3]"
    by (simp add: getWeight_def snapshotted_eq w0_def)
  have "weight_after_rollback (mutate_all (replicate 10 (MApplyUpdate ''w'' [Fin 1, Fin 1, Fin 1] 1, 2))
           snapshotted) ''w'' = Some [Fin 11, Fin 12, Fin 13]"
    apply (simp only: r m n)
    apply (simp add: weight_after_rollback_def getWeight_def snapshotted_eq w0_def default_config_def
        applyUpdate_def Let_def rd_def createSnapshot_def rollback_def restorable_def restore_def)
    done
  with g show ?thesis by simp
qed

theorem rollback_restores_snapshot_witness:
  "1 \<le> maxSnapshots (wu_config (constructor w0 default_config 0)) \<and>
   no_periodic_snapshot [(MApplyUpdate ''w'' [Fin 1, Fin 1, Fin 1] 1, 2)] snapshotted \<and>
   getWeight ''w'' (constructor w0 default_config 0) = Some [Fin 1, Fin 2, Fin 3] \<and>
   getWeight ''w'' (mutate_all [(MApplyUpdate ''w'' [Fin 1, Fin 1, Fin 1] 1, 2)] snapshotted)
     = Some [Fin 2, Fin 3, Fin 4] \<and>
   rollback None (mutate_all [(MApplyUpdate ''w'' [Fin 1, Fin 1, Fin 1] 1, 2)] snapshotted) =
     Inr (True, (mutate_all [(MApplyUpdate ''w'' [Fin 1, Fin 1, Fin 1] 1, 2)] snapshotted)
                  \<lparr>currentWeights := w0, lastMetrics := None\<rparr>)"
proof -
  have h1: "1 \<le> maxSnapshots (wu_config (constructor w0 default_config 0))"
    by (simp add: constructor_def createSnapshot_def default_config_def Let_def)
  have h2: "no_periodic_snapshot [(MApplyUpdate ''w'' [Fin 1, Fin 1, Fin 1] 1, 2)]
              (createSnapshot None 1 (constructor w0 default_config 0))"
    by (simp add: constructor_def createSnapshot_def default_config_def Let_def)
  have c: "currentWeights (constructor w0 default_config 0) = w0"
    by (simp add: constructor_def createSnapshot_def Let_def)
  have g1: "getWeight ''w'' (constructor w0 default_config 0) = Some [Fin 1, Fin 2, Fin 3]"
    unfolding getWeight_def c by (simp add: w0_def)
  have g2: "getWeight ''w'' (mutate_all [(MApplyUpdate ''w'' [Fin 1, Fin 1, Fin 1] 1, 2)]
              snapshotted) = Some [Fin 2, Fin 3, Fin 4]"
    by (simp add: getWeight_def snapshotted_eq w0_def default_config_def applyUpdate_def Let_def
        rd_def)
  show ?thesis
    using rollback_restores_snapshot[OF h1 h2] h1 h2 g1 g2 by (simp add: snapshotted_def c)
qed

section \<open>Properties of the LoRA adapter\<close>











section \<open>Properties of the learning-rate schedule\<close>

lemma lr_warmup:
  "real n < warmupSteps cfg \<Longrightarrow>
   getLearningRate cfg n = Fin (learningRate cfg * (real n / warmupSteps cfg))"
  by (simp add: getLearningRate_def)

lemma lr_cosine:
  "warmupSteps cfg \<le> real n \<Longrightarrow> warmupSteps cfg < maxSteps cfg \<Longrightarrow>
   getLearningRate cfg n =
     Fin (learningRate cfg * 0.5 *
          (1 + cos (pi * ((real n - warmupSteps cfg) / (maxSteps cfg - warmupSteps cfg)))))"
  by (simp add: getLearningRate_def Let_def)

text \<open>
  Between \<open>warmupSteps\<close> and \<open>maxSteps\<close> the rate of a non-negative peak rate never
  increases and stays between 0 and the peak rate.
\<close>

lemma lr_decreasing:
  assumes "0 \<le> learningRate cfg" "warmupSteps cfg < maxSteps cfg"
    "warmupSteps cfg \<le> real a" "a \<le> b" "real b \<le> maxSteps cfg"
  shows "\<exists>x y. getLearningRate cfg a = Fin x \<and> getLearningRate cfg b = Fin y \<and> 0 \<le> y \<and> y \<le> x
            \<and> x \<le> learningRate cfg"
proof -
  let ?w = "warmupSteps cfg" and ?m = "maxSteps cfg"
  let ?p = "\<lambda>n. (real n - ?w) / (?m - ?w)"
  have d: "0 < ?m - ?w" using assms(2) by simp
  have pa: "0 \<le> ?p a" using assms d by simp
  have pab: "?p a \<le> ?p b" using assms d by (simp add: divide_right_mono)
  have pb: "?p b \<le> 1" using assms d by simp
  have h1: "0 \<le> pi * ?p a"
    using pa by (intro mult_nonneg_nonneg) simp_all
  have h2: "pi * ?p a \<le> pi * ?p b"
    using pab by (intro mult_left_mono) simp_all
  have h3: "pi * ?p b \<le> pi"
    using mult_left_mono[OF pb, of pi] by simp
  have c: "cos (pi * ?p b) \<le> cos (pi * ?p a)"
    using h1 h2 h3 by (rule cos_monotone_0_pi_le)
  have ga: "getLearningRate cfg a = Fin (learningRate cfg * 0.5 * (1 + cos (pi * ?p a)))"
    using assms by (intro lr_cosine) auto
  have gb: "getLearningRate cfg b = Fin (learningRate cfg * 0.5 * (1 + cos (pi * ?p b)))"
    using assms by (intro lr_cosine) auto
  let ?x = "learningRate cfg * 0.5 * (1 + cos (pi * ?p a))"
  let ?y = "learningRate cfg * 0.5 * (1 + cos (pi * ?p b))"
  have yx: "?y \<le> ?x"
    using c assms(1) by (intro mult_left_mono) auto
  have "0 \<le> 1 + cos (pi * ?p b)"
    using cos_ge_minus_one[of "pi * ?p b"] by linarith
  then have y0: "0 \<le> ?y"
    using assms(1) by (intro mult_nonneg_nonneg) simp_all
  have "1 + cos (pi * ?p a) \<le> 2"
    using cos_le_one[of "pi * ?p a"] by linarith
  then have "?x \<le> learningRate cfg * 0.5 * 2"
    using assms(1) by (intro mult_left_mono) simp_all
  then have xl: "?x \<le> learningRate cfg" by simp
  from ga gb y0 yx xl show ?thesis by blast
qed

text \<open>
  Claim C6 (learning-rate schedule). For \<open>0 < warmupSteps < maxSteps\<close> and peak rate
  \<open>L\<close>: the rate is 0 at step 0, exactly \<open>L\<close> at step \<open>warmupSteps\<close>, the linear ramp
  \<open>L * step / warmupSteps\<close> before \<open>warmupSteps\<close>, the cosine
  \<open>L / 2 * (1 + cos (\<pi> * (step - warmupSteps) / (maxSteps - warmupSteps)))\<close> from there on,
  and 0 at step \<open>maxSteps\<close>.
\<close>

theorem learning_rate_schedule:
  assumes "warmupSteps cfg = real w" "maxSteps cfg = real m" "0 < w" "w < m"
  shows "getLearningRate cfg 0 = Fin 0
    \<and> getLearningRate cfg w = Fin (learningRate cfg)
    \<and> (\<forall>n<w. getLearningRate cfg n = Fin (learningRate cfg * (real n / real w)))
    \<and> (\<forall>n\<ge>w. getLearningRate cfg n =
           Fin (learningRate cfg * 0.5 * (1 + cos (pi * ((real n - real w) / (real m - real w))))))
    \<and> getLearningRate cfg m = Fin 0"
proof -
  have a: "getLearningRate cfg 0 = Fin 0"
    using assms by (simp add: lr_warmup)
  have c: "getLearningRate cfg n =
           Fin (learningRate cfg * 0.5 * (1 + cos (pi * ((real n - real w) / (real m - real w)))))"
    if "w \<le> n" for n
    using lr_cosine[of cfg n] assms that by simp
  have b: "getLearningRate cfg w = Fin (learningRate cfg)"
    using c[of w] by simp
  have d: "getLearningRate cfg m = Fin 0"
    using c[of m] assms by simp
  have e: "getLearningRate cfg n = Fin (learningRate cfg * (real n / real w))" if "n < w" for n
    using lr_warmup[of n cfg] assms that by simp
  from a b c d e show ?thesis by blast
qed

theorem learning_rate_schedule_witness:
  "warmupSteps schedule_config = real 100 \<and> maxSteps schedule_config = real 1000 \<and>
   (0::nat) < 100 \<and> (100::nat) < 1000 \<and>
   getLearningRate schedule_config 0 = Fin 0 \<and>
   getLearningRate schedule_config 50 = Fin (1 / 2000) \<and>
   getLearningRate schedule_config 100 = Fin (1 / 1000) \<and>
   getLearningRate schedule_config 1000 = Fin 0"
proof -
  have t: "getLearningRate schedule_config 0 = Fin 0
    \<and> getLearningRate schedule_config 100 = Fin (learningRate schedule_config)
    \<and> (\<forall>n<100. getLearningRate schedule_config n
           = Fin (learningRate schedule_config * (real n / real 100)))
    \<and> (\<forall>n\<ge>100. getLearningRate schedule_config n =
           Fin (learningRate schedule_config * 0.5 *
                (1 + cos (pi * ((real n - real 100) / (real 1000 - real 100))))))
    \<and> getLearningRate schedule_config 1000 = Fin 0"
    by (rule learning_rate_schedule) (simp_all add: schedule_config_def)
  then have "getLearningRate schedule_config 50 = Fin (1 / 2000)"
    by (simp add: schedule_config_def)
  with t show ?thesis by (simp add: schedule_config_def)
qed


section \<open>Properties of the cosine similarity\<close>












section \<open>Properties of the simulated neurons\<close>

lemma conns_ok_update:
  "conns_ok conns \<Longrightarrow> - 1 \<le> v \<Longrightarrow> v \<le> 1 \<Longrightarrow> conns_ok (AList.update k v conns)"
  by (induction conns) (auto simp: conns_ok_def)

lemma weights_ok_list_update:
  "weights_ok ns \<Longrightarrow> conns_ok (connections n) \<Longrightarrow> weights_ok (ns[i := n])"
  unfolding weights_ok_def using set_update_subset_insert[of ns i n] by auto

lemma weights_ok_same_connections:
  "map connections ns' = map connections ns \<Longrightarrow> weights_ok ns' = weights_ok ns"
proof -
  assume "map connections ns' = map connections ns"
  then have "connections ` set ns' = connections ` set ns"
    by (metis set_map)
  then show ?thesis unfolding weights_ok_def by (metis (no_types, lifting) image_iff)
qed

lemma fold_err_inv:
  assumes "P s" "fold_err f s xs = Inr s'"
    and "\<And>s x s'. P s \<Longrightarrow> f s x = Inr s' \<Longrightarrow> P s'"
  shows "P s'"
  using assms(1,2)
proof (induction xs arbitrary: s)
  case Nil
  then show ?case by simp
next
  case (Cons x xs)
  then show ?case by (auto split: sum.splits intro: assms(3))
qed

lemma connect_row_ok:
  assumes "- 2 \<le> synapticStrength cfg" "synapticStrength cfg \<le> 2"
    "\<forall>k. 0 \<le> random k \<and> random k < 1" "conns_ok conns"
  shows "conns_ok (snd (connect_row cfg random i js (k, conns)))"
  using assms(4)
proof (induction js arbitrary: k conns)
  case Nil
  then show ?case by simp
next
  case (Cons j js)
  have r: "0 \<le> random (k + 1)" "random (k + 1) < 1" using assms(3) by auto
  let ?w = "(random (k + 1) - 0.5) * synapticStrength cfg"
  have h1: "\<bar>random (k + 1) - 1 / 2\<bar> \<le> 1 / 2" using r by (simp add: abs_if)
  have h2: "\<bar>synapticStrength cfg\<bar> \<le> 2" using assms(1,2) by (simp add: abs_le_iff)
  have "\<bar>random (k + 1) - 1 / 2\<bar> * \<bar>synapticStrength cfg\<bar> \<le> 1 / 2 * 2"
    using h1 h2 by (rule mult_mono) simp_all
  then have "\<bar>?w\<bar> \<le> 1" by (simp add: abs_mult)
  then have "- 1 \<le> ?w" "?w \<le> 1" by (simp_all add: abs_le_iff)
  with Cons.prems have "conns_ok (AList.update j ?w conns)" by (intro conns_ok_update)
  with Cons show ?case by auto
qed

lemma connect_all_ok:
  assumes "- 2 \<le> synapticStrength cfg" "synapticStrength cfg \<le> 2"
    "\<forall>k. 0 \<le> random k \<and> random k < 1" "weights_ok ns"
  shows "weights_ok (connect_all cfg random k ns)"
  using assms(4)
proof (induction ns arbitrary: k)
  case Nil
  then show ?case by (simp add: weights_ok_def)
next
  case (Cons n ns)
  obtain k' conns where c: "connect_row cfg random (neuron_id n) [0..<numNeurons cfg] (k, connections n) = (k', conns)"
    by force
  from Cons.prems have "conns_ok (connections n)" "weights_ok ns" by (simp_all add: weights_ok_def)
  with connect_row_ok[OF assms(1-3), of "connections n" "neuron_id n" "[0..<numNeurons cfg]" k] c
  have "conns_ok conns" by simp
  with Cons.IH[OF \<open>weights_ok ns\<close>, of k'] c show ?case by (simp add: weights_ok_def)
qed

lemma new_network_ok:
  assumes "- 2 \<le> synapticStrength cfg" "synapticStrength cfg \<le> 2"
    "\<forall>k. 0 \<le> random k \<and> random k < 1"
  shows "weights_ok (neurons (new_network cfg random))"
  unfolding new_network_def initializeNeurons_def
  by (simp, intro connect_all_ok[OF assms]) (simp add: weights_ok_def conns_ok_def)

lemma update_neuron_connections: "connections (fst (update_neuron cfg t n)) = connections n"
  by (simp add: update_neuron_def Let_def)

lemma propagate_one_connections:
  "propagate_one ns c = Inr ns' \<Longrightarrow> map connections ns' = map connections ns"
  by (auto simp: propagate_one_def neuron_at_def map_update list_update_same_conv
      split: prod.splits if_splits)

lemma propagate_one_ok: "weights_ok ns \<Longrightarrow> propagate_one ns c = Inr ns' \<Longrightarrow> weights_ok ns'"
  using propagate_one_connections weights_ok_same_connections by blast

lemma propagate_spike_ok: "weights_ok ns \<Longrightarrow> propagate_spike ns i = Inr ns' \<Longrightarrow> weights_ok ns'"
  unfolding propagate_spike_def
  by (auto split: sum.splits elim: fold_err_inv[where P = weights_ok and f = propagate_one]
      intro: propagate_one_ok)

lemma stdp_weight_range: "- 1 \<le> stdp_weight cfg d w \<and> stdp_weight cfg d w \<le> 1"
  by (simp add: stdp_weight_def Let_def)

lemma stdp_one_ok: "conns_ok conns \<Longrightarrow> stdp_one cfg ns st conns c = Inr conns' \<Longrightarrow> conns_ok conns'"
  by (auto simp: stdp_one_def stdp_weight_range split: prod.splits sum.splits option.splits if_splits
      intro!: conns_ok_update)

lemma stdp_source_ok: "weights_ok ns \<Longrightarrow> stdp_source cfg ns i = Inr ns' \<Longrightarrow> weights_ok ns'"
proof -
  assume a: "weights_ok ns" "stdp_source cfg ns i = Inr ns'"
  then obtain src conns where s: "neuron_at ns i = Inr src"
    "fold_err (stdp_one cfg ns (lastSpikeTime src)) (connections src) (connections src) = Inr conns"
    "ns' = ns[i := src\<lparr>connections := conns\<rparr>]"
    by (auto simp: stdp_source_def split: sum.splits)
  from s(1) a(1) have "conns_ok (connections src)"
    by (auto simp: neuron_at_def weights_ok_def split: if_splits)
  then have "conns_ok conns"
    using s(2) by (rule fold_err_inv[where P = conns_ok]) (auto intro: stdp_one_ok)
  with a(1) s(3) show ?thesis by (simp add: weights_ok_list_update)
qed

lemma applySTDP_ok: "weights_ok ns \<Longrightarrow> applySTDP cfg spikes ns = Inr ns' \<Longrightarrow> weights_ok ns'"
  unfolding applySTDP_def
  by (erule fold_err_inv[where P = weights_ok]) (auto intro: stdp_source_ok)

lemma updateNeurons_ok:
  assumes "weights_ok (neurons net)" "updateNeurons net = Inr net'"
  shows "weights_ok (neurons net') \<and> net_config net' = net_config net"
proof -
  let ?cfg = "net_config net" and ?t = "timeStep net + 1"
  let ?upd = "map (update_neuron ?cfg ?t) (neurons net)"
  let ?spikes = "map (neuron_id \<circ> fst) (filter snd ?upd)"
  from assms(2) obtain ns1 ns2 where
    p: "fold_err propagate_spike (map fst ?upd) ?spikes = Inr ns1"
    and q: "(if enableSTDP ?cfg then applySTDP ?cfg ?spikes ns1 else Inr ns1) = Inr ns2"
    and r: "net' = net\<lparr>neurons := ns2, timeStep := ?t,
              globalActivity := js_div (real (length ?spikes)) (real (numNeurons ?cfg))\<rparr>"
    by (auto simp: updateNeurons_def Let_def split: sum.splits)
  have "map connections (map fst ?upd) = map connections (neurons net)"
    by (simp add: update_neuron_connections)
  with assms(1) have "weights_ok (map fst ?upd)"
    using weights_ok_same_connections by blast
  then have "weights_ok ns1"
    using p by (rule fold_err_inv[where P = weights_ok]) (auto intro: propagate_spike_ok)
  with q have "weights_ok ns2"
    by (auto split: if_splits intro: applySTDP_ok)
  with r show ?thesis by simp
qed

lemma iterate_update_ok:
  "weights_ok (neurons net) \<Longrightarrow> iterate_update k net = Inr net' \<Longrightarrow>
   weights_ok (neurons net') \<and> net_config net' = net_config net"
proof (induction k arbitrary: net)
  case 0
  then show ?case by simp
next
  case (Suc k)
  then obtain net1 where u: "updateNeurons net = Inr net1" "iterate_update k net1 = Inr net'"
    by (auto split: sum.splits)
  from updateNeurons_ok[OF Suc.prems(1) u(1)] Suc.IH[OF _ u(2)] show ?case by simp
qed

lemma apply_input_connections: "map connections (apply_input input npi ns) = map connections ns"
proof -
  have inner: "map connections (foldl (\<lambda>ns2 j. let neuronIdx = i * npi + j
                       in if neuronIdx < length ns2
                          then ns2[neuronIdx := (ns2 ! neuronIdx)\<lparr>potential :=
                                    potential (ns2 ! neuronIdx) + input ! i\<rparr>]
                          else ns2) ns1 js) = map connections ns1" for i ns1 js
    by (induction js arbitrary: ns1) (simp_all add: Let_def map_update list_update_same_conv)
  have "map connections (foldl (\<lambda>ns1 i. foldl (\<lambda>ns2 j. let neuronIdx = i * npi + j
                       in if neuronIdx < length ns2
                          then ns2[neuronIdx := (ns2 ! neuronIdx)\<lparr>potential :=
                                    potential (ns2 ! neuronIdx) + input ! i\<rparr>]
                          else ns2) ns1 [0..<npi]) ns is) = map connections ns" for "is"
    by (induction "is" arbitrary: ns) (simp_all add: inner)
  then show ?thesis by (simp add: apply_input_def)
qed

lemma net_forward_ok:
  assumes "weights_ok (neurons net)" "net_forward input net = Inr (out, net')"
  shows "weights_ok (neurons net') \<and> net_config net' = net_config net"
proof -
  let ?npi = "numNeurons (net_config net) div length input"
  let ?net1 = "net\<lparr>neurons := apply_input input ?npi (neurons net)\<rparr>"
  from assms(2) have i: "iterate_update 10 ?net1 = Inr net'"
    by (auto simp: net_forward_def Let_def split: sum.splits)
  have "weights_ok (neurons ?net1)"
    using assms(1) weights_ok_same_connections[OF apply_input_connections] by simp
  from iterate_update_ok[OF this i] show ?thesis by simp
qed

lemma hebbian_pair_ok:
  "0 \<le> plasticityRate cfg \<Longrightarrow> conns_ok conns \<Longrightarrow> conns_ok (hebbian_pair cfg conns t)"
proof -
  assume a: "0 \<le> plasticityRate cfg" "conns_ok conns"
  have "- 1 \<le> (case map_of conns t of None \<Rightarrow> 0 | Some w \<Rightarrow> w)"
  proof (cases "map_of conns t")
    case None
    then show ?thesis by simp
  next
    case (Some w)
    then have "(t, w) \<in> set conns" by (rule map_of_SomeD)
    with a(2) Some show ?thesis by (auto simp: conns_ok_def)
  qed
  with a show ?thesis
    unfolding hebbian_pair_def Let_def by (intro conns_ok_update) simp_all
qed

lemma hebbian_source_ok:
  assumes "0 \<le> plasticityRate cfg" "weights_ok ns" "hebbian_source cfg ts ns i = Inr ns'"
  shows "weights_ok ns'"
proof (cases "ts = []")
  case True
  with assms show ?thesis by (simp add: hebbian_source_def)
next
  case False
  with assms(3) obtain src where s: "neuron_at ns i = Inr src"
    "ns' = ns[i := src\<lparr>connections := foldl (hebbian_pair cfg) (connections src) ts\<rparr>]"
    by (auto simp: hebbian_source_def split: sum.splits)
  from s(1) assms(2) have c: "conns_ok (connections src)"
    by (auto simp: neuron_at_def weights_ok_def split: if_splits)
  have "conns_ok (foldl (hebbian_pair cfg) conns ts)" if "conns_ok conns" for conns
    using that by (induction ts arbitrary: conns) (simp_all add: hebbian_pair_ok assms(1))
  from this[OF c] assms(2) s(2) show ?thesis by (simp add: weights_ok_list_update)
qed

lemma hebbianLearning_ok:
  assumes "0 \<le> plasticityRate (net_config net)" "weights_ok (neurons net)"
    "hebbianLearning input target net = Inr net'"
  shows "weights_ok (neurons net') \<and> net_config net' = net_config net"
proof -
  from assms(3) obtain ts as ns where
    f: "fold_err (hebbian_source (net_config net) ts) (neurons net) as = Inr ns"
    and n: "net' = net\<lparr>neurons := ns\<rparr>"
    by (auto simp: hebbianLearning_def Let_def split: if_splits sum.splits)
  have "weights_ok ns"
    using assms(2) f by (rule fold_err_inv[where P = weights_ok])
      (auto intro: hebbian_source_ok[OF assms(1)])
  with n show ?thesis by simp
qed

lemma pruneConnections_ok:
  "weights_ok (neurons net) \<Longrightarrow> weights_ok (neurons (pruneConnections thr net))"
  by (auto simp: pruneConnections_def weights_ok_def conns_ok_def)

lemma net_step_ok:
  assumes "0 \<le> plasticityRate (net_config net)" "weights_ok (neurons net)" "net_step c net = Inr net'"
  shows "weights_ok (neurons net') \<and> net_config net' = net_config net"
proof (cases c)
  case (Forward input)
  with assms(3) obtain out where "net_forward input net = Inr (out, net')"
    by (auto split: sum.splits)
  from net_forward_ok[OF assms(2) this] show ?thesis .
next
  case (HebbianLearning input target)
  with assms hebbianLearning_ok[of net input target net'] show ?thesis by simp
next
  case (PruneConnections thr)
  with assms pruneConnections_ok[of net thr] show ?thesis by (auto simp: pruneConnections_def)
qed

lemma net_run_ok:
  assumes "0 \<le> plasticityRate (net_config net)" "weights_ok (neurons net)"
    "net_run ops net = Inr net'"
  shows "weights_ok (neurons net')"
proof -
  have "0 \<le> plasticityRate (net_config net') \<and> weights_ok (neurons net')"
  proof (rule fold_err_inv[where P = "\<lambda>s. 0 \<le> plasticityRate (net_config s) \<and> weights_ok (neurons s)"])
    show "0 \<le> plasticityRate (net_config net) \<and> weights_ok (neurons net)"
      using assms by simp
  next
    show "fold_err (\<lambda>s c. net_step c s) net ops = Inr net'"
      using assms(3) by (simp add: net_run_def)
  next
    fix s x s'
    assume "0 \<le> plasticityRate (net_config s) \<and> weights_ok (neurons s)" "net_step x s = Inr s'"
    with net_step_ok[of s x s'] show "0 \<le> plasticityRate (net_config s') \<and> weights_ok (neurons s')"
      by simp
  qed
  then show ?thesis ..
qed

subsection \<open>The network operations return\<close>

text \<open>
  On a well-formed network every neuron lookup is in range, so \<open>forward\<close> and
  \<open>pruneConnections\<close> always return, and \<open>hebbianLearning\<close> returns unless its loop bound is
  infinite.
\<close>
lemma fold_err_total:
  assumes "P s" "\<forall>x \<in> set xs. Q x"
    and "\<And>s x. P s \<Longrightarrow> Q x \<Longrightarrow> \<exists>s'. f s x = Inr s' \<and> P s'"
  shows "\<exists>s'. fold_err f s xs = Inr s' \<and> P s'"
  using assms(1,2)
proof (induction xs arbitrary: s)
  case Nil
  then show ?case by simp
next
  case (Cons x xs)
  from assms(3)[of s x] Cons.prems obtain s1 where "f s x = Inr s1" "P s1" by auto
  with Cons.IH[of s1] Cons.prems show ?case by auto
qed

lemma fold_err_wf:
  assumes "neurons_wf ns" "\<forall>x \<in> set xs. Q (length ns) x"
    and "\<And>s x. neurons_wf s \<Longrightarrow> Q (length s) x \<Longrightarrow>
           \<exists>s'. f s x = Inr s' \<and> neurons_wf s' \<and> length s' = length s"
  shows "\<exists>ns'. fold_err f ns xs = Inr ns' \<and> neurons_wf ns' \<and> length ns' = length ns"
  using assms(1,2)
proof (induction xs arbitrary: ns)
  case Nil
  then show ?case by simp
next
  case (Cons x xs)
  from assms(3)[of ns x] Cons.prems obtain s1 where
    s: "f ns x = Inr s1" "neurons_wf s1" "length s1 = length ns" by auto
  with Cons.IH[of s1] Cons.prems show ?case by auto
qed

lemma map_err_total:
  assumes "\<forall>x \<in> set xs. \<exists>y. f x = Inr y"
  shows "\<exists>ys. map_err f xs = Inr ys"
  using assms
proof (induction xs)
  case Nil
  then show ?case by simp
next
  case (Cons x xs)
  then obtain y ys where "f x = Inr y" "map_err f xs = Inr ys" by auto
  then show ?case by simp
qed

lemma targets_ok_update:
  "targets_ok k conns \<Longrightarrow> t < k \<Longrightarrow> targets_ok k (AList.update t v conns)"
  by (induction conns) (auto simp: targets_ok_def)

lemma neurons_wf_update:
  assumes "neurons_wf ns" "i < length ns" "neuron_id n = i" "targets_ok (length ns) (connections n)"
  shows "neurons_wf (ns[i := n])"
proof -
  have "map neuron_id (ns[i := n]) = (map neuron_id ns)[i := neuron_id n]"
    by (simp add: map_update)
  also have "\<dots> = map neuron_id ns"
    using assms(1,2,3) by (simp add: neurons_wf_def list_update_same_conv)
  finally have "map neuron_id (ns[i := n]) = [0..<length (ns[i := n])]"
    using assms(1) by (simp add: neurons_wf_def)
  moreover have "\<forall>m \<in> set (ns[i := n]). targets_ok (length (ns[i := n])) (connections m)"
    using assms(1,4) set_update_subset_insert[of ns i n] by (auto simp: neurons_wf_def)
  ultimately show ?thesis by (simp add: neurons_wf_def)
qed

lemma neurons_wf_id: "neurons_wf ns \<Longrightarrow> i < length ns \<Longrightarrow> neuron_id (ns ! i) = i"
proof -
  assume a: "neurons_wf ns" "i < length ns"
  then have "map neuron_id ns ! i = [0..<length ns] ! i" by (simp add: neurons_wf_def)
  with a(2) show ?thesis by simp
qed

lemma neurons_wf_targets:
  "neurons_wf ns \<Longrightarrow> i < length ns \<Longrightarrow> targets_ok (length ns) (connections (ns ! i))"
  by (simp add: neurons_wf_def)

lemma neurons_wf_same:
  assumes "neurons_wf ns" "map neuron_id ns' = map neuron_id ns"
    "map connections ns' = map connections ns"
  shows "neurons_wf ns'"
proof -
  have l: "length ns' = length ns" using assms(2) by (rule map_eq_imp_length_eq)
  have "connections ` set ns' = connections ` set ns"
    using assms(3) by (metis set_map)
  then have "\<forall>n \<in> set ns'. targets_ok (length ns) (connections n)"
    using assms(1) unfolding neurons_wf_def by (metis (no_types, lifting) image_iff)
  with assms(1,2) l show ?thesis by (simp add: neurons_wf_def)
qed

lemma connect_row_targets:
  "targets_ok k conns \<Longrightarrow> \<forall>j \<in> set js. j < k \<Longrightarrow>
   targets_ok k (snd (connect_row cfg random i js (c, conns)))"
proof (induction js arbitrary: c conns)
  case Nil
  then show ?case by simp
next
  case (Cons j js)
  then have "targets_ok k (AList.update j v conns)" for v
    by (intro targets_ok_update) simp_all
  with Cons show ?case by auto
qed

lemma connect_all_wf:
  "\<forall>n \<in> set ns. targets_ok (numNeurons cfg) (connections n) \<Longrightarrow>
   map neuron_id (connect_all cfg random c ns) = map neuron_id ns \<and>
   (\<forall>n \<in> set (connect_all cfg random c ns). targets_ok (numNeurons cfg) (connections n))"
proof (induction ns arbitrary: c)
  case Nil
  then show ?case by simp
next
  case (Cons n ns)
  obtain c' conns where r: "connect_row cfg random (neuron_id n) [0..<numNeurons cfg] (c, connections n) = (c', conns)"
    by force
  have "targets_ok (numNeurons cfg) (snd (connect_row cfg random (neuron_id n) [0..<numNeurons cfg] (c, connections n)))"
    using Cons.prems by (intro connect_row_targets) simp_all
  with r have "targets_ok (numNeurons cfg) conns" by simp
  with Cons.IH[of c'] Cons.prems r show ?case by simp
qed

lemma new_network_wf: "net_wf (new_network cfg random)"
proof -
  let ?init = "map (\<lambda>i. \<lparr>neuron_id = i, potential = random i * 0.1 - 0.05, lastSpikeTime = None,
                   isRefractory = False, connections = [], spikeHistory = []\<rparr>) [0..<numNeurons cfg]"
  have "\<forall>n \<in> set ?init. targets_ok (numNeurons cfg) (connections n)"
    by (auto simp: targets_ok_def)
  from connect_all_wf[OF this, of random "numNeurons cfg"]
  have m: "map neuron_id (initializeNeurons cfg random) = map neuron_id ?init"
    and t: "\<forall>n \<in> set (initializeNeurons cfg random). targets_ok (numNeurons cfg) (connections n)"
    by (simp_all add: initializeNeurons_def)
  have i: "map neuron_id ?init = [0..<numNeurons cfg]"
    by (simp add: comp_def)
  from m have "length (initializeNeurons cfg random) = length ?init"
    by (rule map_eq_imp_length_eq)
  then have l: "length (initializeNeurons cfg random) = numNeurons cfg" by simp
  with m i t show ?thesis
    by (simp add: net_wf_def network_sized_def neurons_wf_def new_network_def)
qed

lemma update_neuron_id: "neuron_id (fst (update_neuron cfg t n)) = neuron_id n"
  by (simp add: update_neuron_def Let_def)

lemma propagate_one_total:
  assumes "neurons_wf ns" "fst c < length ns"
  shows "\<exists>ns'. propagate_one ns c = Inr ns' \<and> neurons_wf ns' \<and> length ns' = length ns"
proof -
  obtain t w where c: "c = (t, w)" by force
  with assms(2) have t: "t < length ns" by simp
  let ?n = "(ns ! t)\<lparr>potential := potential (ns ! t) + w\<rparr>"
  have "neurons_wf (ns[t := ?n])"
    using assms(1) t by (intro neurons_wf_update) (simp_all add: neurons_wf_id neurons_wf_targets)
  with c t show ?thesis by (simp add: propagate_one_def neuron_at_def)
qed

lemma propagate_spike_total:
  assumes "neurons_wf ns" "i < length ns"
  shows "\<exists>ns'. propagate_spike ns i = Inr ns' \<and> neurons_wf ns' \<and> length ns' = length ns"
proof -
  have "targets_ok (length ns) (connections (ns ! i))"
    using assms by (rule neurons_wf_targets)
  then have q: "\<forall>c \<in> set (connections (ns ! i)). fst c < length ns"
    by (auto simp: targets_ok_def)
  have "\<exists>ns'. fold_err propagate_one ns (connections (ns ! i)) = Inr ns'
          \<and> neurons_wf ns' \<and> length ns' = length ns"
    using assms(1) q
    by (rule fold_err_wf[where Q = "\<lambda>k c. fst c < k"]) (rule propagate_one_total)
  with assms(2) show ?thesis by (simp add: propagate_spike_def neuron_at_def)
qed

lemma stdp_one_total:
  assumes "fst c < length ns" "targets_ok (length ns) conns"
  shows "\<exists>conns'. stdp_one cfg ns st conns c = Inr conns' \<and> targets_ok (length ns) conns'"
proof -
  obtain t w where c: "c = (t, w)" by force
  with assms(1) have t: "t < length ns" by simp
  from targets_ok_update[OF assms(2) t] c t assms(2) show ?thesis
    by (auto simp: stdp_one_def neuron_at_def split: option.splits)
qed

lemma stdp_source_total:
  assumes "neurons_wf ns" "i < length ns"
  shows "\<exists>ns'. stdp_source cfg ns i = Inr ns' \<and> neurons_wf ns' \<and> length ns' = length ns"
proof -
  let ?src = "ns ! i"
  have k: "targets_ok (length ns) (connections ?src)"
    using assms by (rule neurons_wf_targets)
  then have q: "\<forall>c \<in> set (connections ?src). fst c < length ns"
    by (auto simp: targets_ok_def)
  have "\<exists>conns. fold_err (stdp_one cfg ns (lastSpikeTime ?src)) (connections ?src) (connections ?src)
          = Inr conns \<and> targets_ok (length ns) conns"
    by (rule fold_err_total[where Q = "\<lambda>c. fst c < length ns"])
       (use k q stdp_one_total in auto)
  then obtain conns where f: "fold_err (stdp_one cfg ns (lastSpikeTime ?src)) (connections ?src)
      (connections ?src) = Inr conns" "targets_ok (length ns) conns" by blast
  have "neurons_wf (ns[i := ?src\<lparr>connections := conns\<rparr>])"
    using assms f(2) by (intro neurons_wf_update) (simp_all add: neurons_wf_id)
  with f(1) assms(2) show ?thesis by (simp add: stdp_source_def neuron_at_def)
qed

lemma applySTDP_total:
  assumes "neurons_wf ns" "\<forall>i \<in> set spikes. i < length ns"
  shows "\<exists>ns'. applySTDP cfg spikes ns = Inr ns' \<and> neurons_wf ns' \<and> length ns' = length ns"
proof -
  have "\<exists>ns'. fold_err (stdp_source cfg) ns spikes = Inr ns'
          \<and> neurons_wf ns' \<and> length ns' = length ns"
    using assms
    by (rule fold_err_wf[where Q = "\<lambda>k i. i < k"]) (rule stdp_source_total)
  then show ?thesis by (simp add: applySTDP_def)
qed

lemma updateNeurons_total:
  assumes "net_wf net"
  shows "\<exists>net'. updateNeurons net = Inr net' \<and> net_wf net' \<and> net_config net' = net_config net"
proof -
  let ?cfg = "net_config net" and ?t = "timeStep net + 1"
  let ?upd = "map (update_neuron ?cfg ?t) (neurons net)"
  let ?ns0 = "map fst ?upd"
  let ?spikes = "map (neuron_id \<circ> fst) (filter snd ?upd)"
  from assms have w: "neurons_wf (neurons net)" and l: "length (neurons net) = numNeurons ?cfg"
    by (simp_all add: net_wf_def network_sized_def)
  have w0: "neurons_wf ?ns0"
    using w by (rule neurons_wf_same) (simp_all add: update_neuron_id update_neuron_connections)
  have l0: "length ?ns0 = length (neurons net)" by simp
  have "set ?spikes \<subseteq> set (map neuron_id ?ns0)" by auto
  also have "\<dots> = set [0..<length ?ns0]" using w0 unfolding neurons_wf_def by metis
  finally have "set ?spikes \<subseteq> {0..<length ?ns0}" by simp
  then have s: "\<forall>i \<in> set ?spikes. i < length ?ns0" by (meson atLeastLessThan_iff subsetD)
  have "\<exists>ns1. fold_err propagate_spike ?ns0 ?spikes = Inr ns1
          \<and> neurons_wf ns1 \<and> length ns1 = length ?ns0"
    using w0 s
    by (rule fold_err_wf[where Q = "\<lambda>k i. i < k"]) (rule propagate_spike_total)
  then obtain ns1 where p: "fold_err propagate_spike ?ns0 ?spikes = Inr ns1"
    "neurons_wf ns1" "length ns1 = length ?ns0" by blast
  have "\<exists>ns2. (if enableSTDP ?cfg then applySTDP ?cfg ?spikes ns1 else Inr ns1) = Inr ns2
          \<and> neurons_wf ns2 \<and> length ns2 = length ns1"
    using applySTDP_total[OF p(2), of ?spikes ?cfg] s p by auto
  then obtain ns2 where q: "(if enableSTDP ?cfg then applySTDP ?cfg ?spikes ns1 else Inr ns1) = Inr ns2"
    "neurons_wf ns2" "length ns2 = length ns1" by blast
  from p q l show ?thesis
    by (simp add: updateNeurons_def Let_def net_wf_def network_sized_def)
qed

lemma iterate_update_total:
  "net_wf net \<Longrightarrow>
   \<exists>net'. iterate_update k net = Inr net' \<and> net_wf net' \<and> net_config net' = net_config net"
proof (induction k arbitrary: net)
  case 0
  then show ?case by simp
next
  case (Suc k)
  from updateNeurons_total[OF Suc.prems] obtain net1 where
    u: "updateNeurons net = Inr net1" "net_wf net1" "net_config net1 = net_config net" by blast
  with Suc.IH[OF u(2)] show ?case by auto
qed

lemma apply_input_ids: "map neuron_id (apply_input input npi ns) = map neuron_id ns"
proof -
  have inner: "map neuron_id (foldl (\<lambda>ns2 j. let neuronIdx = i * npi + j
                       in if neuronIdx < length ns2
                          then ns2[neuronIdx := (ns2 ! neuronIdx)\<lparr>potential :=
                                    potential (ns2 ! neuronIdx) + input ! i\<rparr>]
                          else ns2) ns1 js) = map neuron_id ns1" for i ns1 js
    by (induction js arbitrary: ns1) (simp_all add: Let_def map_update list_update_same_conv)
  have "map neuron_id (foldl (\<lambda>ns1 i. foldl (\<lambda>ns2 j. let neuronIdx = i * npi + j
                       in if neuronIdx < length ns2
                          then ns2[neuronIdx := (ns2 ! neuronIdx)\<lparr>potential :=
                                    potential (ns2 ! neuronIdx) + input ! i\<rparr>]
                          else ns2) ns1 [0..<npi]) ns ks) = map neuron_id ns" for ks
    by (induction ks arbitrary: ns) (simp_all add: inner)
  then show ?thesis by (simp add: apply_input_def)
qed

lemma read_output_total:
  assumes "network_sized net"
  shows "\<exists>v. read_output net npi i = Inr v"
proof -
  let ?n = "numNeurons (net_config net)"
  let ?f = "\<lambda>(acc, cnt) j.
                       if i * npi + j + 1 \<le> ?n
                       then (case neuron_at (neurons net) (?n - (i * npi + j) - 1) of
                               Inl e \<Rightarrow> Inl e
                             | Inr n \<Rightarrow> Inr (acc + potential n, cnt + 1))
                       else Inr (acc, cnt :: nat)"
  have "\<exists>s'. fold_err ?f (0, 0) [0..<npi] = Inr s' \<and> True"
  proof (rule fold_err_total[where Q = "\<lambda>j. True" and P = "\<lambda>s. True"])
    fix s :: "real \<times> nat" and x
    obtain a c where s: "s = (a, c)" by force
    have "?n - (i * npi + x) - 1 < length (neurons net)" if "i * npi + x + 1 \<le> ?n"
      using that assms by (simp add: network_sized_def)
    then show "\<exists>s'. ?f s x = Inr s' \<and> True"
      by (auto simp: s neuron_at_def)
  qed simp_all
  then obtain s' where "fold_err ?f (0, 0) [0..<npi] = Inr s'" by blast
  then show ?thesis by (cases s') (simp add: read_output_def)
qed

lemma net_forward_total:
  assumes "net_wf net"
  shows "\<exists>out net'. net_forward input net = Inr (out, net') \<and> net_wf net'
           \<and> net_config net' = net_config net"
proof -
  let ?npi = "numNeurons (net_config net) div length input"
  let ?net1 = "net\<lparr>neurons := apply_input input ?npi (neurons net)\<rparr>"
  from assms have w: "neurons_wf (neurons net)" and l: "length (neurons net) = numNeurons (net_config net)"
    by (simp_all add: net_wf_def network_sized_def)
  have w1: "neurons_wf (neurons ?net1)"
    using w by (simp add: neurons_wf_same[OF _ apply_input_ids apply_input_connections])
  have "length (neurons ?net1) = length (neurons net)"
    using apply_input_ids[of input ?npi "neurons net"] map_eq_imp_length_eq by fastforce
  with w1 l have "net_wf ?net1" by (simp add: net_wf_def network_sized_def)
  from iterate_update_total[OF this, of 10] obtain net2 where
    i: "iterate_update 10 ?net1 = Inr net2" "net_wf net2" "net_config net2 = net_config net"
    by auto
  from i(2) have "network_sized net2" by (simp add: net_wf_def)
  from map_err_total[of "[0..<length input]" "read_output net2 ?npi"] read_output_total[OF this]
  obtain out where "map_err (read_output net2 ?npi) [0..<length input] = Inr out" by blast
  with i show ?thesis by (simp add: net_forward_def Let_def)
qed

lemma hebbian_source_total:
  assumes "neurons_wf ns" "i < length ns" "\<forall>t \<in> set ts. t < length ns"
  shows "\<exists>ns'. hebbian_source cfg ts ns i = Inr ns' \<and> neurons_wf ns' \<and> length ns' = length ns"
proof (cases "ts = []")
  case True
  with assms show ?thesis by (simp add: hebbian_source_def)
next
  case False
  have "targets_ok (length ns) (foldl (hebbian_pair cfg) conns ts)"
    if "targets_ok (length ns) conns" for conns
    using that assms(3)
    by (induction ts arbitrary: conns) (simp_all add: hebbian_pair_def Let_def targets_ok_update)
  from this[OF neurons_wf_targets[OF assms(1,2)]]
  have "neurons_wf (ns[i := (ns ! i)\<lparr>connections := foldl (hebbian_pair cfg) (connections (ns ! i)) ts\<rparr>])"
    using assms by (intro neurons_wf_update) (simp_all add: neurons_wf_id)
  with False assms(2) show ?thesis by (simp add: hebbian_source_def neuron_at_def)
qed

lemma hebbianLearning_wf:
  assumes "net_wf net" "op_terminates (net_config net) (HebbianLearning input target)"
  shows "\<exists>net'. hebbianLearning input target net = Inr net' \<and> net_wf net'
           \<and> net_config net' = net_config net"
proof -
  let ?cfg = "net_config net"
  let ?npi = "numNeurons ?cfg div length input"
  let ?as = "concat (map (\<lambda>i. if input ! i > 0.5 then map (\<lambda>j. i * ?npi + j) [0..<?npi] else [])
                       [0..<length input])"
  let ?ts = "concat (map (\<lambda>i. if target ! i > 0.5
                            then map (\<lambda>j. numNeurons ?cfg - (i * ?npi + j) - 1)
                                   (filter (\<lambda>j. i * ?npi + j + 1 \<le> numNeurons ?cfg) [0..<?npi])
                            else [])
                       [0..<length target])"
  from assms(1) have w: "neurons_wf (neurons net)" and l: "length (neurons net) = numNeurons ?cfg"
    by (simp_all add: net_wf_def network_sized_def)
  have a: "\<forall>a \<in> set ?as. a < length (neurons net)"
  proof
    fix a assume "a \<in> set ?as"
    then obtain i where i: "i < length input" "a < ?npi + i * ?npi"
      by (auto split: if_splits)
    have "?npi + i * ?npi = Suc i * ?npi" by simp
    also have "\<dots> \<le> length input * ?npi" using i(1) by (intro mult_le_mono1) simp
    also have "\<dots> \<le> numNeurons ?cfg" by (simp add: mult.commute)
    finally show "a < length (neurons net)" using i(2) l by simp
  qed
  have t: "\<forall>t \<in> set ?ts. t < length (neurons net)"
    using l by (auto split: if_splits)
  have "\<forall>a \<in> set ?as. a < length (neurons net) \<and> (\<forall>t \<in> set ?ts. t < length (neurons net))"
    using a t by blast
  with w have "\<exists>ns'. fold_err (hebbian_source ?cfg ?ts) (neurons net) ?as = Inr ns'
          \<and> neurons_wf ns' \<and> length ns' = length (neurons net)"
    by (rule fold_err_wf[where Q = "\<lambda>k i. i < k \<and> (\<forall>t \<in> set ?ts. t < k)"])
       (rule hebbian_source_total, simp_all)
  then obtain ns' where "fold_err (hebbian_source ?cfg ?ts) (neurons net) ?as = Inr ns'"
    "neurons_wf ns'" "length ns' = length (neurons net)" by blast
  with assms(2) l show ?thesis
    by (simp add: hebbianLearning_def Let_def net_wf_def network_sized_def)
qed

lemma pruneConnections_wf: "net_wf net \<Longrightarrow> net_wf (pruneConnections thr net)"
  by (fastforce simp: pruneConnections_def net_wf_def network_sized_def neurons_wf_def
      targets_ok_def comp_def)

lemma net_step_total:
  assumes "net_wf net" "op_terminates (net_config net) c"
  shows "\<exists>net'. net_step c net = Inr net' \<and> net_wf net' \<and> net_config net' = net_config net"
proof (cases c)
  case (Forward input)
  with net_forward_total[OF assms(1), of input] show ?thesis by auto
next
  case (HebbianLearning input target)
  with hebbianLearning_wf[OF assms(1), of input target] assms(2) show ?thesis by simp
next
  case (PruneConnections thr)
  with pruneConnections_wf[OF assms(1), of thr] show ?thesis by (simp add: pruneConnections_def)
qed

lemma net_run_total:
  assumes "net_wf net" "\<forall>c \<in> set ops. op_terminates (net_config net) c"
  shows "\<exists>net'. net_run ops net = Inr net'"
proof -
  have "\<exists>net'. fold_err (\<lambda>s c. net_step c s) net ops = Inr net'
          \<and> (net_wf net' \<and> net_config net' = net_config net)"
  proof (rule fold_err_total[where Q = "op_terminates (net_config net)"])
    show "net_wf net \<and> net_config net = net_config net" using assms(1) by simp
    show "\<forall>c \<in> set ops. op_terminates (net_config net) c" by (rule assms(2))
    fix s c
    assume "net_wf s \<and> net_config s = net_config net" "op_terminates (net_config net) c"
    with net_step_total[of s c]
    show "\<exists>s'. net_step c s = Inr s' \<and> (net_wf s' \<and> net_config s' = net_config net)"
      by auto
  qed
  then show ?thesis by (auto simp: net_run_def)
qed

text \<open>
  Claim C9 (connection weights), as amended. For a network constructed with
  \<open>-2 \<le> synapticStrength \<le> 2\<close> and \<open>plasticityRate \<ge> 0\<close>, from random numbers in
  \<open>[0, 1)\<close>: every connection weight lies in \<open>[-1, 1]\<close> at initialisation and after every
  sequence of \<open>forward\<close>, \<open>hebbianLearning\<close> and \<open>pruneConnections\<close> calls that return; and
  every sequence returns unless it contains a \<open>hebbianLearning\<close> call with an empty input and
  a target slot above 0.5, whose loop does not end.
\<close>

theorem weights_stay_in_range:
  assumes "- 2 \<le> synapticStrength cfg" "synapticStrength cfg \<le> 2" "0 \<le> plasticityRate cfg"
    "\<forall>k. 0 \<le> random k \<and> random k < 1"
  shows "weights_ok (neurons (new_network cfg random)) \<and>
         (\<forall>ops net'. net_run ops (new_network cfg random) = Inr net' \<longrightarrow> weights_ok (neurons net')) \<and>
         (\<forall>ops. (\<forall>c \<in> set ops. op_terminates cfg c) \<longrightarrow>
                (\<exists>net'. net_run ops (new_network cfg random) = Inr net'))"
proof -
  have i: "weights_ok (neurons (new_network cfg random))"
    using assms(1,2,4) by (rule new_network_ok)
  have c: "net_config (new_network cfg random) = cfg" by (simp add: new_network_def)
  have r: "\<forall>ops net'. net_run ops (new_network cfg random) = Inr net' \<longrightarrow> weights_ok (neurons net')"
    using assms(3) i c net_run_ok[of "new_network cfg random"] by auto
  have t: "\<forall>ops. (\<forall>c \<in> set ops. op_terminates cfg c) \<longrightarrow>
                (\<exists>net'. net_run ops (new_network cfg random) = Inr net')"
    using net_run_total[OF new_network_wf, of _ cfg random] c by simp
  from i r t show ?thesis by blast
qed

lemma init_small: "new_network small_neuron_config zero_random =
  \<lparr>neurons = [\<lparr>neuron_id = 0, potential = - (1 / 20), lastSpikeTime = None, isRefractory = False,
                connections = [(1, - (1 / 4))], spikeHistory = []\<rparr>,
              \<lparr>neuron_id = 1, potential = - (1 / 20), lastSpikeTime = None, isRefractory = False,
                connections = [(0, - (1 / 4))], spikeHistory = []\<rparr>],
    net_config = small_neuron_config, timeStep = 0, globalActivity = Fin 0\<rparr>"
  by (simp add: new_network_def initializeNeurons_def small_neuron_config_def zero_random_def numeral_2_eq_2)


lemma small_run:
  "\<exists>net'. net_run [HebbianLearning [1, 0] [0, 1], PruneConnections (1 / 10), Forward [2, 0]]
           (new_network small_neuron_config zero_random) = Inr net'"
  unfolding init_small
  apply (simp add: net_run_def hebbianLearning_def Let_def small_neuron_config_def numeral_2_eq_2
      hebbian_source_def neuron_at_def hebbian_pair_def pruneConnections_def)
  apply (simp add: net_forward_def Let_def apply_input_def numeral_2_eq_2)
  apply (simp add: eval_nat_numeral)
  apply (simp add: updateNeurons_def Let_def update_neuron_def applySTDP_def propagate_spike_def
      propagate_one_def neuron_at_def stdp_source_def stdp_one_def read_output_def js_div_def)
  done

theorem weights_stay_in_range_witness:
  "- 2 \<le> synapticStrength small_neuron_config \<and> synapticStrength small_neuron_config \<le> 2 \<and>
   0 \<le> plasticityRate small_neuron_config \<and>
   (\<forall>k. 0 \<le> zero_random k \<and> zero_random k < 1) \<and>
   weights_ok (neurons (new_network small_neuron_config zero_random)) \<and>
   (case net_run [HebbianLearning [1, 0] [0, 1], PruneConnections (1 / 10), Forward [2, 0]]
           (new_network small_neuron_config zero_random) of
      Inl e \<Rightarrow> False
    | Inr net' \<Rightarrow> weights_ok (neurons net'))"
proof -
  have h: "- 2 \<le> synapticStrength small_neuron_config" "synapticStrength small_neuron_config \<le> 2"
    "0 \<le> plasticityRate small_neuron_config" "\<forall>k. 0 \<le> zero_random k \<and> zero_random k < 1"
    by (simp_all add: small_neuron_config_def zero_random_def)
  from small_run obtain net' where
    r: "net_run [HebbianLearning [1, 0] [0, 1], PruneConnections (1 / 10), Forward [2, 0]]
          (new_network small_neuron_config zero_random) = Inr net'" ..
  from weights_stay_in_range[OF h] r h show ?thesis by simp
qed

text \<open>
  Claim C9 as stated fails: it bounds \<open>synapticStrength\<close> from above only. With
  \<open>synapticStrength = -4\<close> and random numbers 0 the initial weights are
  \<open>(0 - 0.5) * (-4) = 2\<close>.
\<close>

theorem negative_strength_counterexample:
  "synapticStrength negative_strength_config \<le> 2 \<and> 0 \<le> plasticityRate negative_strength_config \<and>
   map connections (neurons (new_network negative_strength_config zero_random))
     = [[(1, 2)], [(0, 2)]] \<and>
   \<not> weights_ok (neurons (new_network negative_strength_config zero_random))"
proof -
  have c: "map connections (neurons (new_network negative_strength_config zero_random))
             = [[(1, 2)], [(0, 2)]]"
    by (simp add: new_network_def initializeNeurons_def negative_strength_config_def
        small_neuron_config_def zero_random_def numeral_2_eq_2)
  have "\<not> conns_ok [(1, 2)]" by (simp add: conns_ok_def)
  moreover have "[(1, 2)] \<in> set (map connections
      (neurons (new_network negative_strength_config zero_random)))"
    unfolding c by simp
  ultimately have "\<not> weights_ok (neurons (new_network negative_strength_config zero_random))"
    unfolding weights_ok_def by auto
  with c show ?thesis
    by (simp add: negative_strength_config_def small_neuron_config_def)
qed


section \<open>Properties of the fast learner\<close>

lemma sum_list_bump:
  fixes xs :: "real list"
  shows "k < length xs \<Longrightarrow> sum_list (xs[k := xs ! k + d]) = sum_list xs + d"
proof (induction xs arbitrary: k)
  case Nil
  then show ?case by simp
next
  case (Cons x xs)
  then show ?case by (cases k) simp_all
qed

lemma histogram_props:
  fixes d :: real
  assumes "0 \<le> d" "length enc = 256" "\<forall>x \<in> set enc. 0 \<le> x"
  shows "length (foldl (\<lambda>enc c. enc[c mod 256 := enc ! (c mod 256) + d]) enc cs) = 256
       \<and> (\<forall>x \<in> set (foldl (\<lambda>enc c. enc[c mod 256 := enc ! (c mod 256) + d]) enc cs). 0 \<le> x)
       \<and> sum_list (foldl (\<lambda>enc c. enc[c mod 256 := enc ! (c mod 256) + d]) enc cs)
           = sum_list enc + real (length cs) * d"
  using assms(2,3)
proof (induction cs arbitrary: enc)
  case Nil
  then show ?case by simp
next
  case (Cons c cs)
  let ?e = "enc[c mod 256 := enc ! (c mod 256) + d]"
  have k: "c mod 256 < length enc" using Cons.prems(1) by simp
  have l: "length ?e = 256" using Cons.prems(1) by simp
  have "0 \<le> enc ! (c mod 256)" using Cons.prems(2) k by simp
  then have n: "\<forall>x \<in> set ?e. 0 \<le> x"
    using Cons.prems(2) assms(1) set_update_subset_insert[of enc "c mod 256" "enc ! (c mod 256) + d"]
    by auto
  have s: "sum_list ?e = sum_list enc + d"
    using k by (rule sum_list_bump)
  from Cons.IH[OF l n] s show ?case by (simp add: algebra_simps)
qed







lemma hebbian_fold_total:
  "\<forall>i \<in> set as. i < length ns \<Longrightarrow>
   \<exists>ns'. fold_err (hebbian_source cfg ts) ns as = Inr ns' \<and> length ns' = length ns"
proof (induction as arbitrary: ns)
  case Nil
  then show ?case by simp
next
  case (Cons a as)
  have "\<exists>ns1. hebbian_source cfg ts ns a = Inr ns1 \<and> length ns1 = length ns"
    using Cons.prems by (cases "ts = []") (simp_all add: hebbian_source_def neuron_at_def)
  then obtain ns1 where s: "hebbian_source cfg ts ns a = Inr ns1" "length ns1 = length ns"
    by blast
  with Cons.IH[of ns1] Cons.prems show ?case by auto
qed

lemma hebbianLearning_total:
  assumes "network_sized net" "input \<noteq> []"
  shows "\<exists>net'. hebbianLearning input target net = Inr net' \<and> network_sized net'"
proof -
  let ?cfg = "net_config net"
  let ?npi = "numNeurons ?cfg div length input"
  let ?as = "concat (map (\<lambda>i. if input ! i > 0.5 then map (\<lambda>j. i * ?npi + j) [0..<?npi] else [])
                       [0..<length input])"
  let ?ts = "concat (map (\<lambda>i. if target ! i > 0.5
                            then map (\<lambda>j. numNeurons ?cfg - (i * ?npi + j) - 1)
                                   (filter (\<lambda>j. i * ?npi + j + 1 \<le> numNeurons ?cfg) [0..<?npi])
                            else [])
                       [0..<length target])"
  have "a < length (neurons net)" if "a \<in> set ?as" for a
  proof -
    from that obtain i where i: "i < length input" "a < ?npi + i * ?npi"
      by (auto split: if_splits)
    have "?npi + i * ?npi = Suc i * ?npi" by simp
    also have "\<dots> \<le> length input * ?npi" using i(1) by (intro mult_le_mono1) simp
    also have "\<dots> \<le> numNeurons ?cfg" by (simp add: mult.commute)
    finally show ?thesis using i(2) assms(1) by (simp add: network_sized_def)
  qed
  then have "\<forall>a \<in> set ?as. a < length (neurons net)" by blast
  from hebbian_fold_total[OF this, of ?cfg ?ts]
  obtain ns' where "fold_err (hebbian_source ?cfg ?ts) (neurons net) ?as = Inr ns'"
    "length ns' = length (neurons net)" by blast
  with assms show ?thesis
    by (simp add: hebbianLearning_def Let_def network_sized_def)
qed


lemma fresh_network_sized: "network_sized (new_network small_neuron_config zero_random)"
  unfolding network_sized_def init_small by (simp add: small_neuron_config_def)






section \<open>Properties of the training engine\<close>

lemma encodeText_length: "length (encodeText str) = 256"
proof -
  have "0 \<le> 1 / real (length str)" by simp
  from histogram_props[OF this, of "replicate 256 0" str] show ?thesis
    by (simp add: encodeText_def Let_def)
qed

lemma learnFast_total:
  assumes "network_sized (neuralNetwork fl)"
  shows "\<exists>r fl'. learnFast e t fl = Inr (r, fl') \<and> (learned r \<or> recall r)
            \<and> network_sized (neuralNetwork fl')"
proof (cases "findSimilar (encodeText (ex_input e)) (similarityThreshold (fl_config fl))
                (episodicMemory fl)")
  case (Some i)
  with assms show ?thesis by (simp add: learnFast_def Let_def)
next
  case None
  have "encodeText (ex_input e) \<noteq> []"
    using encodeText_length[of "ex_input e"] by auto
  from hebbianLearning_total[OF assms this, of "encodeText (ex_output e)"]
  obtain net where "hebbianLearning (encodeText (ex_input e)) (encodeText (ex_output e))
      (neuralNetwork fl) = Inr net" "network_sized net" by blast
  with None show ?thesis
    by (simp add: learnFast_def Let_def consolidateMemory_def)
qed

lemma fast_pass_total:
  assumes "network_sized (neuralNetwork fl)"
  shows "\<exists>a b fl' stats'. fold_err (fast_pass_example now) (a0, b0, rem, fl, stats) exs
            = Inr (a, b, rem, fl', stats') \<and> network_sized (neuralNetwork fl')"
  using assms
proof (induction exs arbitrary: a0 b0 fl stats)
  case Nil
  then show ?case by simp
next
  case (Cons e exs)
  from learnFast_total[OF Cons.prems, of e now] obtain r fl1 where
    l: "learnFast e now fl = Inr (r, fl1)" "learned r \<or> recall r" "network_sized (neuralNetwork fl1)"
    by blast
  show ?case
  proof (cases "learned r")
    case True
    with l Cons.IH[OF l(3), of "a0 + 1" b0 "stats\<lparr>oneShot := oneShot stats + 1\<rparr>"]
    show ?thesis by (simp add: fast_pass_example_def)
  next
    case False
    with l Cons.IH[OF l(3), of a0 "b0 + 1" "stats\<lparr>recalled := recalled stats + 1\<rparr>"]
    show ?thesis by (simp add: fast_pass_example_def)
  qed
qed

text \<open>
  \<open>learnFast\<close> returns learned or recalled for every example, so with a fast learner no
  example is ever left over: every batch takes the early return, with the loss 0.01 and
  the metrics log as it was.
\<close>

lemma trainBatch_short_circuit:
  assumes "fastLearner eng = Some fl" "network_sized (neuralNetwork fl)"
  shows "\<exists>m eng'. trainBatch tex exs now eng = Inr (m, eng') \<and> metrics eng' = metrics eng
           \<and> m_loss m = 0.01 \<and> examplesProcessed m = length exs \<and> isTraining eng' = False"
proof -
  from fast_pass_total[OF assms(2), of now 0 0 "[]" "fastLearningStats eng" exs]
  obtain a b fl' stats' where
    "fold_err (fast_pass_example now) (0, 0, [], fl, fastLearningStats eng) exs
       = Inr (a, b, [], fl', stats')" by blast
  with assms(1) show ?thesis by (simp add: trainBatch_def Let_def)
qed

text \<open>Without a fast learner the record that is returned is appended to the log.\<close>

lemma trainBatch_traditional_appends:
  assumes "fastLearner eng = None"
  shows "\<exists>m eng'. trainBatch tex exs now eng = Inr (m, eng') \<and> metrics eng' = metrics eng @ [m]"
  using assms by (simp add: trainBatch_def traditional_pass_def Let_def)

text \<open>
  Claim C4 (one metrics record per batch). On an engine with the fast learner enabled and
  an empty log, \<open>trainBatch\<close> of a one-example batch completes with the fixed minimal
  loss 0.01 for the one example, and the log is still empty: the early return builds the
  record but does not append it.
\<close>

theorem trainBatch_short_circuit_keeps_log:
  "length (metrics fast_engine) = 0 \<and>
   batch_summary (trainBatch unit_loss [hello_example] 5 fast_engine) = Inr (1 / 100, 1, 0)"
proof -
  have "fastLearner fast_engine = Some (new_learner small_learner_config zero_random)"
    by (simp add: fast_engine_def)
  moreover have "network_sized (neuralNetwork (new_learner small_learner_config zero_random))"
    using fresh_network_sized by (simp add: new_learner_def small_learner_config_def)
  ultimately obtain m eng' where
    "trainBatch unit_loss [hello_example] 5 fast_engine = Inr (m, eng')"
    "metrics eng' = metrics fast_engine" "m_loss m = 0.01" "examplesProcessed m = length [hello_example]"
    using trainBatch_short_circuit[of fast_engine _ unit_loss "[hello_example]" 5] by blast
  then show ?thesis by (simp add: batch_summary_def fast_engine_def)
qed

end
